theory Spec2Isabelle
  imports Main
begin

unbundle bit_operations_syntax

section \<open>Conventions of the embedding\<close>

text \<open>
  The emulator core of \<^verbatim>\<open>emugb4k.py\<close> (classes Cartridge, Joypad, Timer, PPU, MMU, CPU
  and GameBoy) is embedded function by function. Python integers are \<^typ>\<open>int\<close>; the
  masks (\<^verbatim>\<open>& 0xFF\<close>, \<^verbatim>\<open>& 0xFFFF\<close>) are written where the source writes them.
  \<^verbatim>\<open>x >> n\<close> is \<^term>\<open>drop_bit n x\<close>, \<^verbatim>\<open>x << n\<close> is \<^term>\<open>push_bit n x\<close>, \<^verbatim>\<open>~x\<close> is
  \<^term>\<open>NOT x\<close>. A Python value used as a condition is compared with 0.

  A \<^verbatim>\<open>bytearray\<close> is a function from index to byte. Every index the source uses is
  in range by a mask or a guard next to it, except the window tile-map read of
  \<^verbatim>\<open>PPU._render\<close>, which goes through \<open>bytearray_get\<close> and can raise.

  A method \<^verbatim>\<open>Class.method\<close> is the constant \<open>Class_method\<close>; it takes the object's
  state and returns the new state (and the returned value, if any). Objects shared by
  reference (the PPU, timer, joypad and cartridge held by the MMU, the MMU held by the
  CPU) are stored once, inside their holder.
\<close>

datatype error = IndexError

definition bytearray_get :: "int \<Rightarrow> (int \<Rightarrow> int) \<Rightarrow> int \<Rightarrow> error + int" where
  \<comment> \<open>Python indexing of a bytearray of length n: a negative index counts from the end.\<close>
  "bytearray_get n m i =
     (if 0 \<le> i \<and> i < n then Inr (m i)
      else if - n \<le> i \<and> i < 0 then Inr (m (i + n))
      else Inl IndexError)"

section \<open>Cartridge and MBC\<close>

record cartridge =
  rom :: "int list"
  ram :: "int \<Rightarrow> int"
  mbc_type :: int
  rom_bank :: int
  ram_bank :: int
  ram_enabled :: bool
  cart_mode :: int
  num_rom_banks :: int
  ram_size :: int

text \<open>\<^verbatim>\<open>Cartridge.__init__\<close>; the title string \<^verbatim>\<open>name\<close> is used by the shell only and is left out.\<close>

definition Cartridge_init :: "int list \<Rightarrow> cartridge" where
  "Cartridge_init data =
     (let nb = (if length data > 0x0148 then data ! 0x0148 else 0);
          ri = (if length data > 0x0149 then data ! 0x0149 else 0)
      in \<lparr> rom = data, ram = (\<lambda>_. 0),
           mbc_type = (if length data > 0x0147 then data ! 0x0147 else 0),
           rom_bank = 1, ram_bank = 0, ram_enabled = False, cart_mode = 0,
           num_rom_banks = max 2 (push_bit (nat nb) 2),
           ram_size = (if ri < 6 then [0, 2048, 8192, 32768, 131072, 65536] ! nat ri else 0) \<rparr>)"

definition Cartridge_read :: "cartridge \<Rightarrow> int \<Rightarrow> int" where
  "Cartridge_read c a =
     (if a < 0x4000 then
        (if a < int (length (rom c)) then rom c ! nat a else 0xFF)
      else if a < 0x8000 then
        (let bank = rom_bank c AND (num_rom_banks c - 1);
             off = bank * 0x4000 + (a - 0x4000)
         in if off < int (length (rom c)) then rom c ! nat off else 0xFF)
      else if 0xA000 \<le> a \<and> a < 0xC000 then
        (if ram_enabled c \<and> ram_size c \<noteq> 0
         then ram c (ram_bank c * 0x2000 + (a - 0xA000)) else 0xFF)
      else 0xFF)"

definition Cartridge_write :: "cartridge \<Rightarrow> int \<Rightarrow> int \<Rightarrow> cartridge" where
  "Cartridge_write c a v0 =
     (let v = v0 AND 0xFF; mt = mbc_type c in
      if mt = 0 then c
      else if mt \<in> {1, 2, 3, 0x0F, 0x10, 0x11, 0x12, 0x13} then
        (if a < 0x2000 then c\<lparr>ram_enabled := (v AND 0x0F = 0x0A)\<rparr>
         else if a < 0x4000 then
           (let lo0 = v AND (if mt \<le> 3 then 0x1F else 0x7F);
                lo = (if lo0 = 0 then 1 else lo0)
            in if mt \<le> 3 then c\<lparr>rom_bank := (rom_bank c AND 0x60) OR lo\<rparr>
               else c\<lparr>rom_bank := lo\<rparr>)
         else if a < 0x6000 \<and> mt \<le> 3 then
           (if cart_mode c = 0
            then c\<lparr>rom_bank := (rom_bank c AND 0x1F) OR push_bit 5 (v AND 3)\<rparr>
            else c\<lparr>ram_bank := v AND 3\<rparr>)
         else if a < 0x8000 \<and> mt \<le> 3 then c\<lparr>cart_mode := v AND 1\<rparr>
         else if 0xA000 \<le> a \<and> a < 0xC000 then
           (if ram_enabled c \<and> ram_size c \<noteq> 0
            then c\<lparr>ram := (ram c)(ram_bank c * 0x2000 + (a - 0xA000) := v)\<rparr> else c)
         else c)
      else c)"

section \<open>Joypad\<close>

record joypad =
  btn_a :: bool
  btn_b :: bool
  btn_sel :: bool
  btn_start :: bool
  btn_right :: bool
  btn_left :: bool
  btn_up :: bool
  btn_down :: bool
  sel_btn :: bool
  sel_dir :: bool

definition Joypad_init :: joypad where
  "Joypad_init = \<lparr> btn_a = False, btn_b = False, btn_sel = False, btn_start = False,
     btn_right = False, btn_left = False, btn_up = False, btn_down = False,
     sel_btn = False, sel_dir = False \<rparr>"

definition Joypad_read :: "joypad \<Rightarrow> int" where
  "Joypad_read j =
     (let v = 0xCF;
          v = (if sel_btn j then
                 (let v = v AND NOT 0x20;
                      v = (if btn_a j then v AND NOT 1 else v);
                      v = (if btn_b j then v AND NOT 2 else v);
                      v = (if btn_sel j then v AND NOT 4 else v);
                      v = (if btn_start j then v AND NOT 8 else v)
                  in v)
               else v);
          v = (if sel_dir j then
                 (let v = v AND NOT 0x10;
                      v = (if btn_right j then v AND NOT 1 else v);
                      v = (if btn_left j then v AND NOT 2 else v);
                      v = (if btn_up j then v AND NOT 4 else v);
                      v = (if btn_down j then v AND NOT 8 else v)
                  in v)
               else v)
      in v)"

definition Joypad_write :: "joypad \<Rightarrow> int \<Rightarrow> joypad" where
  "Joypad_write j v = j\<lparr>sel_btn := (v AND 0x20 = 0), sel_dir := (v AND 0x10 = 0)\<rparr>"

section \<open>Timer\<close>

text \<open>Fields \<^verbatim>\<open>div\<close>, \<^verbatim>\<open>_of\<close> and \<^verbatim>\<open>_of_d\<close> are \<open>div_ctr\<close>, \<open>ovf\<close> and \<open>ovf_d\<close>.\<close>

record timer_state =
  div_ctr :: int
  tima :: int
  tma :: int
  tac :: int
  ovf :: bool
  ovf_d :: int

definition Timer_init :: timer_state where
  "Timer_init = \<lparr> div_ctr = 0xABCC, tima = 0, tma = 0, tac = 0, ovf = False, ovf_d = 0 \<rparr>"

text \<open>The class constant \<^verbatim>\<open>BITS = {0:9, 1:3, 2:5, 3:7}\<close>, looked up at \<^verbatim>\<open>tac & 3\<close>.\<close>

definition BITS :: "int \<Rightarrow> nat" where
  "BITS k = (if k = 0 then 9 else if k = 1 then 3 else if k = 2 then 5 else 7)"

definition Timer_step :: "timer_state \<Rightarrow> int \<Rightarrow> bool \<times> timer_state" where
  "Timer_step t cyc =
     (let old = div_ctr t;
          t = t\<lparr>div_ctr := (div_ctr t + cyc) AND 0xFFFF\<rparr>;
          (fired, t) =
             (if ovf t then
                (let t = t\<lparr>ovf_d := ovf_d t - cyc\<rparr>
                 in if ovf_d t \<le> 0 then (True, t\<lparr>tima := tma t, ovf := False\<rparr>)
                    else (False, t))
              else (False, t));
          t = (if tac t AND 4 \<noteq> 0 then
                 (let bit = BITS (tac t AND 3)
                  in if drop_bit bit old AND 1 \<noteq> 0 \<and> \<not> (drop_bit bit (div_ctr t) AND 1 \<noteq> 0)
                     then (let t = t\<lparr>tima := (tima t + 1) AND 0xFF\<rparr>
                           in if tima t = 0 then t\<lparr>ovf := True, ovf_d := 4\<rparr> else t)
                     else t)
               else t)
      in (fired, t))"

definition Timer_read :: "timer_state \<Rightarrow> int \<Rightarrow> int" where
  "Timer_read t a =
     (if a = 0xFF04 then drop_bit 8 (div_ctr t) AND 0xFF
      else if a = 0xFF05 then tima t
      else if a = 0xFF06 then tma t
      else if a = 0xFF07 then tac t OR 0xF8
      else 0xFF)"

definition Timer_write :: "timer_state \<Rightarrow> int \<Rightarrow> int \<Rightarrow> timer_state" where
  "Timer_write t a v =
     (if a = 0xFF04 then t\<lparr>div_ctr := 0\<rparr>
      else if a = 0xFF05 then t\<lparr>tima := v\<rparr>
      else if a = 0xFF06 then t\<lparr>tma := v\<rparr>
      else if a = 0xFF07 then t\<lparr>tac := v AND 7\<rparr>
      else t)"

section \<open>PPU\<close>

text \<open>Field \<^verbatim>\<open>cycles\<close> of the PPU is \<open>ppu_cycles\<close>, \<^verbatim>\<open>_win_active\<close> is \<open>win_active\<close>.\<close>

record ppu_state =
  vram :: "int \<Rightarrow> int"
  oam :: "int \<Rightarrow> int"
  lcdc :: int
  stat :: int
  scy :: int
  scx :: int
  ly :: int
  lyc :: int
  bgp :: int
  obp0 :: int
  obp1 :: int
  wy :: int
  wx :: int
  mode :: int
  ppu_cycles :: int
  win_line :: int
  win_active :: bool
  pixels :: "int \<Rightarrow> int"
  frame_ready :: bool

definition DMG_COLORS :: "(int \<times> int \<times> int) list" where
  "DMG_COLORS = [(0xE8, 0xF8, 0xD0), (0x88, 0xC0, 0x70), (0x34, 0x68, 0x56), (0x08, 0x18, 0x20)]"

definition PPU_init :: ppu_state where
  "PPU_init = \<lparr> vram = (\<lambda>_. 0), oam = (\<lambda>_. 0), lcdc = 0x91, stat = 0x85, scy = 0, scx = 0,
     ly = 0, lyc = 0, bgp = 0xFC, obp0 = 0xFF, obp1 = 0xFF, wy = 0, wx = 7,
     mode = 2, ppu_cycles = 0, win_line = 0, win_active = False,
     pixels = (\<lambda>_. 0), frame_ready = False \<rparr>"

definition PPU_shade :: "int \<Rightarrow> int \<Rightarrow> int \<times> int \<times> int" where
  "PPU_shade pal idx = DMG_COLORS ! nat (drop_bit (nat (idx * 2)) pal AND 3)"

definition PPU_read :: "ppu_state \<Rightarrow> int \<Rightarrow> int" where
  "PPU_read p a =
     (if 0x8000 \<le> a \<and> a < 0xA000 then vram p (a - 0x8000)
      else if 0xFE00 \<le> a \<and> a < 0xFEA0 then oam p (a - 0xFE00)
      else (let r = a AND 0xFF in
        if r = 0x40 then lcdc p
        else if r = 0x41 then (stat p OR 0x80) AND 0xFF
        else if r = 0x42 then scy p
        else if r = 0x43 then scx p
        else if r = 0x44 then ly p
        else if r = 0x45 then lyc p
        else if r = 0x47 then bgp p
        else if r = 0x48 then obp0 p
        else if r = 0x49 then obp1 p
        else if r = 0x4A then wy p
        else if r = 0x4B then wx p
        else 0xFF))"

definition PPU_write :: "ppu_state \<Rightarrow> int \<Rightarrow> int \<Rightarrow> ppu_state" where
  "PPU_write p a v =
     (if 0x8000 \<le> a \<and> a < 0xA000 then p\<lparr>vram := (vram p)(a - 0x8000 := v)\<rparr>
      else if 0xFE00 \<le> a \<and> a < 0xFEA0 then p\<lparr>oam := (oam p)(a - 0xFE00 := v)\<rparr>
      else (let r = a AND 0xFF in
        if r = 0x40 then
          (let p = (if v AND 0x80 = 0
                    then p\<lparr>ly := 0, ppu_cycles := 0, mode := 0, pixels := (\<lambda>_. 0),
                           frame_ready := True\<rparr>
                    else p)
           in p\<lparr>lcdc := v\<rparr>)
        else if r = 0x41 then p\<lparr>stat := (stat p AND 0x87) OR (v AND 0x78)\<rparr>
        else if r = 0x42 then p\<lparr>scy := v\<rparr>
        else if r = 0x43 then p\<lparr>scx := v\<rparr>
        else if r = 0x44 then p\<lparr>ly := 0\<rparr>
        else if r = 0x45 then p\<lparr>lyc := v\<rparr>
        else if r = 0x47 then p\<lparr>bgp := v\<rparr>
        else if r = 0x48 then p\<lparr>obp0 := v\<rparr>
        else if r = 0x49 then p\<lparr>obp1 := v\<rparr>
        else if r = 0x4A then p\<lparr>wy := v\<rparr>
        else if r = 0x4B then p\<lparr>wx := v\<rparr>
        else p))"

subsection \<open>The scanline renderer\<close>

text \<open>A \<^verbatim>\<open>for\<close> loop whose body can raise: the first error ends it.\<close>

fun for_each :: "('a \<Rightarrow> 's \<Rightarrow> error + 's) \<Rightarrow> 'a list \<Rightarrow> 's \<Rightarrow> error + 's" where
  "for_each f [] s = Inr s"
| "for_each f (x # xs) s = (case f x s of Inl e \<Rightarrow> Inl e | Inr s' \<Rightarrow> for_each f xs s')"

text \<open>
  The pieces of the pixel loop of \<^verbatim>\<open>PPU._render\<close> (lines 238 to 262), named so that
  statements can refer to them: \<open>use_win\<close> is the variable of that name, \<open>tile_addr\<close>
  is the \<^verbatim>\<open>if signed\<close> statement computing \<^verbatim>\<open>addr\<close>, \<open>tile_fetch\<close> is the choice of
  \<^verbatim>\<open>ti\<close>, \<^verbatim>\<open>row\<close> and \<^verbatim>\<open>col\<close> from the window or the background map.
\<close>

definition win_y_ok :: "ppu_state \<Rightarrow> bool" where
  "win_y_ok p = (lcdc p AND 0x20 \<noteq> 0 \<and> ly p \<ge> wy p)"

definition use_win :: "ppu_state \<Rightarrow> int \<Rightarrow> bool" where
  "use_win p px = (win_y_ok p \<and> px \<ge> wx p - 7 \<and> lcdc p AND 0x20 \<noteq> 0)"

definition tile_addr :: "bool \<Rightarrow> int \<Rightarrow> int \<Rightarrow> int \<Rightarrow> int" where
  "tile_addr signed tdata ti row =
     (if signed then (let ti = (if ti < 128 then ti else ti - 256) in 0x0800 + ti * 16 + row * 2)
      else tdata + ti * 16 + row * 2)"

definition tile_fetch :: "ppu_state \<Rightarrow> int \<Rightarrow> int \<Rightarrow> error + (int \<times> int \<times> int)" where
  "tile_fetch p tmap px =
     (if use_win p px \<and> win_active p then
        (let tx = px - (wx p - 7); ty = win_line p;
             wm = (if lcdc p AND 0x40 \<noteq> 0 then 0x1C00 else 0x1800)
         in case bytearray_get 0x2000 (vram p) (wm + drop_bit 3 ty * 32 + drop_bit 3 tx) of
              Inl e \<Rightarrow> Inl e
            | Inr ti \<Rightarrow> Inr (ti, ty AND 7, tx AND 7))
      else
        (let sx = (scx p + px) AND 0xFF; sy = (scy p + ly p) AND 0xFF
         in Inr (vram p (tmap + drop_bit 3 sy * 32 + drop_bit 3 sx), sy AND 7, sx AND 7)))"

definition render_px :: "int \<Rightarrow> int \<Rightarrow> bool \<Rightarrow> int \<Rightarrow> int
    \<Rightarrow> ppu_state \<times> (int \<Rightarrow> int) \<Rightarrow> error + ppu_state \<times> (int \<Rightarrow> int)" where
  "render_px tmap tdata signed base px st =
     (case st of (p, bg_idx) \<Rightarrow>
        (let p = (if use_win p px then p\<lparr>win_active := True\<rparr> else p) in
         case tile_fetch p tmap px of
           Inl e \<Rightarrow> Inl e
         | Inr (ti, row, col) \<Rightarrow>
             (let addr = tile_addr signed tdata ti row in
              if addr < 0 \<or> addr + 1 \<ge> 0x2000 then Inr (p, bg_idx)
              else
                (let lo = vram p addr; hi = vram p (addr + 1);
                     bit = nat (7 - col);
                     c = push_bit 1 (drop_bit bit hi AND 1) OR (drop_bit bit lo AND 1);
                     bg_idx = bg_idx(px := c);
                     (r, g, b) = PPU_shade (bgp p) c
                 in Inr (p\<lparr>pixels := (pixels p)(base + px * 3 := r,
                                                 base + px * 3 + 1 := g,
                                                 base + px * 3 + 2 := b)\<rparr>, bg_idx)))))"

definition render_bg :: "int \<Rightarrow> ppu_state \<times> (int \<Rightarrow> int) \<Rightarrow> error + ppu_state \<times> (int \<Rightarrow> int)" where
  "render_bg base st =
     (case st of (p, bg_idx) \<Rightarrow>
        (let tmap = (if lcdc p AND 8 \<noteq> 0 then 0x1C00 else 0x1800);
             tdata = (if lcdc p AND 0x10 \<noteq> 0 then 0x0000 else 0x0800);
             signed = (lcdc p AND 0x10 = 0);
             wyok = win_y_ok p
         in case for_each (render_px tmap tdata signed base) [0..159] (p, bg_idx) of
              Inl e \<Rightarrow> Inl e
            | Inr (p, bg_idx) \<Rightarrow>
                Inr (if wyok then p\<lparr>win_line := win_line p + 1\<rparr> else p, bg_idx)))"

text \<open>The OAM scan: the loop over \<^verbatim>\<open>range(40)\<close> with its \<^verbatim>\<open>break\<close> at ten sprites.\<close>

fun scan_oam :: "ppu_state \<Rightarrow> int \<Rightarrow> int list \<Rightarrow> (int \<times> int \<times> int \<times> int) list
    \<Rightarrow> (int \<times> int \<times> int \<times> int) list" where
  "scan_oam p sh [] sprites = sprites"
| "scan_oam p sh (i # is) sprites =
     (let oy = oam p (i * 4) - 16; ox = oam p (i * 4 + 1) - 8;
          ti = oam p (i * 4 + 2); at = oam p (i * 4 + 3);
          sprites = (if oy \<le> ly p \<and> ly p < oy + sh then sprites @ [(ox, oy, ti, at)] else sprites)
      in if length sprites = 10 then sprites else scan_oam p sh is sprites)"

definition sprite_px :: "int \<Rightarrow> (int \<Rightarrow> int) \<Rightarrow> int \<Rightarrow> int \<Rightarrow> int \<Rightarrow> int \<Rightarrow> int \<Rightarrow> int
    \<Rightarrow> int \<Rightarrow> ppu_state \<Rightarrow> ppu_state" where
  "sprite_px base bg_idx pal fx prio ox lo hi px p =
     (let sx = ox + px in
      if sx < 0 \<or> sx \<ge> 160 then p
      else
        (let bit = nat (if fx \<noteq> 0 then px else 7 - px);
             c = push_bit 1 (drop_bit bit hi AND 1) OR (drop_bit bit lo AND 1)
         in if c = 0 then p
            else if prio \<noteq> 0 \<and> bg_idx sx \<noteq> 0 then p
            else (let (r, g, b) = PPU_shade pal c
                  in p\<lparr>pixels := (pixels p)(base + sx * 3 := r,
                                              base + sx * 3 + 1 := g,
                                              base + sx * 3 + 2 := b)\<rparr>)))"

definition render_sprite :: "int \<Rightarrow> (int \<Rightarrow> int) \<Rightarrow> int \<Rightarrow> int \<times> int \<times> int \<times> int
    \<Rightarrow> ppu_state \<Rightarrow> ppu_state" where
  "render_sprite base bg_idx sh spr p =
     (case spr of (ox, oy, ti, at) \<Rightarrow>
        (let pal = (if at AND 0x10 \<noteq> 0 then obp1 p else obp0 p);
             fx = at AND 0x20; fy = at AND 0x40; prio = at AND 0x80;
             row = ly p - oy;
             row = (if fy \<noteq> 0 then (sh - 1) - row else row);
             ti = (if sh = 16 then ti AND 0xFE else ti);
             addr = ti * 16 + row * 2
         in if addr + 1 \<ge> 0x2000 then p
            else (let lo = vram p addr; hi = vram p (addr + 1)
                  in fold (sprite_px base bg_idx pal fx prio ox lo hi) [0..7] p)))"

definition render_sprites :: "int \<Rightarrow> (int \<Rightarrow> int) \<Rightarrow> ppu_state \<Rightarrow> ppu_state" where
  "render_sprites base bg_idx p =
     (let sh = (if lcdc p AND 4 \<noteq> 0 then 16 else 8);
          sprites = scan_oam p sh [0..39] []
      in fold (render_sprite base bg_idx sh) (rev sprites) p)"

definition PPU_render :: "ppu_state \<Rightarrow> error + ppu_state" where
  "PPU_render p =
     (if ly p \<ge> 144 then Inr p
      else
        (let base = ly p * 160 * 3; bg_idx = (\<lambda>_. 0) in
         case (if lcdc p AND 1 \<noteq> 0 then render_bg base (p, bg_idx) else Inr (p, bg_idx)) of
           Inl e \<Rightarrow> Inl e
         | Inr (p, bg_idx) \<Rightarrow>
             Inr (if lcdc p AND 2 \<noteq> 0 then render_sprites base bg_idx p else p)))"

subsection \<open>The mode machine\<close>

definition PPU_step :: "ppu_state \<Rightarrow> int \<Rightarrow> error + (bool \<times> bool \<times> ppu_state)" where
  "PPU_step p cyc =
     (if lcdc p AND 0x80 = 0 then Inr (False, False, p)
      else
        (let p = p\<lparr>ppu_cycles := ppu_cycles p + cyc\<rparr> in
         case
           (if mode p = 2 then
              Inr (False, False,
                   if ppu_cycles p \<ge> 80 then p\<lparr>ppu_cycles := ppu_cycles p - 80, mode := 3\<rparr> else p)
            else if mode p = 3 then
              (if ppu_cycles p \<ge> 172 then
                 (case PPU_render (p\<lparr>ppu_cycles := ppu_cycles p - 172\<rparr>) of
                    Inl e \<Rightarrow> Inl e
                  | Inr p \<Rightarrow> Inr (False, stat p AND 8 \<noteq> 0, p\<lparr>mode := 0\<rparr>))
               else Inr (False, False, p))
            else if mode p = 0 then
              (if ppu_cycles p \<ge> 204 then
                 (let p = p\<lparr>ppu_cycles := ppu_cycles p - 204, ly := ly p + 1\<rparr>;
                      st = (ly p = lyc p \<and> stat p AND 0x40 \<noteq> 0)
                  in if ly p = 144
                     then Inr (True, st \<or> stat p AND 0x10 \<noteq> 0,
                               p\<lparr>mode := 1, win_line := 0, win_active := False,
                                  frame_ready := True\<rparr>)
                     else Inr (False, st \<or> stat p AND 0x20 \<noteq> 0, p\<lparr>mode := 2\<rparr>))
               else Inr (False, False, p))
            else if mode p = 1 then
              (if ppu_cycles p \<ge> 456 then
                 (let p = p\<lparr>ppu_cycles := ppu_cycles p - 456, ly := ly p + 1\<rparr>;
                      st = (ly p = lyc p \<and> stat p AND 0x40 \<noteq> 0)
                  in if ly p > 153
                     then Inr (False, st \<or> stat p AND 0x20 \<noteq> 0, p\<lparr>ly := 0, mode := 2\<rparr>)
                     else Inr (False, st, p))
               else Inr (False, False, p))
            else Inr (False, False, p))
         of
           Inl e \<Rightarrow> Inl e
         | Inr (vb, st, p) \<Rightarrow>
             (let p = p\<lparr>stat := (stat p AND 0xFC) OR mode p\<rparr>;
                  p = p\<lparr>stat := (stat p AND NOT 4) OR (if ly p = lyc p then 4 else 0)\<rparr>
              in Inr (vb, st, p))))"

section \<open>MMU\<close>

text \<open>Fields \<^verbatim>\<open>_sb\<close> and \<^verbatim>\<open>_sc\<close> are \<open>sb\<close> and \<open>sc\<close>.\<close>

record mmu_state =
  cart :: cartridge
  ppu :: ppu_state
  timer :: timer_state
  joy :: joypad
  wram :: "int \<Rightarrow> int"
  hram :: "int \<Rightarrow> int"
  IE :: int
  IF :: int
  sb :: int
  sc :: int

definition MMU_init :: "cartridge \<Rightarrow> ppu_state \<Rightarrow> timer_state \<Rightarrow> joypad \<Rightarrow> mmu_state" where
  "MMU_init c p t j = \<lparr> cart = c, ppu = p, timer = t, joy = j, wram = (\<lambda>_. 0), hram = (\<lambda>_. 0),
     IE = 0, IF = 0xE1, sb = 0, sc = 0 \<rparr>"

definition MMU_rb :: "mmu_state \<Rightarrow> int \<Rightarrow> int" where
  "MMU_rb m a0 =
     (let a = a0 AND 0xFFFF in
      if a < 0x8000 then Cartridge_read (cart m) a
      else if a < 0xA000 then PPU_read (ppu m) a
      else if a < 0xC000 then Cartridge_read (cart m) a
      else if a < 0xE000 then wram m (a - 0xC000)
      else if a < 0xFE00 then wram m (a - 0xE000)
      else if a < 0xFEA0 then PPU_read (ppu m) a
      else if a < 0xFF00 then 0xFF
      else if a = 0xFF00 then Joypad_read (joy m)
      else if 0xFF01 \<le> a \<and> a \<le> 0xFF02 then (if a = 0xFF01 then sb m else sc m)
      else if 0xFF04 \<le> a \<and> a \<le> 0xFF07 then Timer_read (timer m) a
      else if a = 0xFF0F then IF m OR 0xE0
      else if 0xFF10 \<le> a \<and> a < 0xFF40 then 0xFF
      else if 0xFF40 \<le> a \<and> a \<le> 0xFF4B then PPU_read (ppu m) a
      else if 0xFF80 \<le> a \<and> a < 0xFFFF then hram m (a - 0xFF80)
      else if a = 0xFFFF then IE m
      else 0xFF)"

text \<open>One round of the OAM DMA loop: \<^verbatim>\<open>self.ppu.oam[i] = self.rb(src + i)\<close>.\<close>

definition dma_copy :: "int \<Rightarrow> int \<Rightarrow> mmu_state \<Rightarrow> mmu_state" where
  "dma_copy src i m = m\<lparr>ppu := (ppu m)\<lparr>oam := (oam (ppu m))(i := MMU_rb m (src + i))\<rparr>\<rparr>"

definition MMU_wb :: "mmu_state \<Rightarrow> int \<Rightarrow> int \<Rightarrow> mmu_state" where
  "MMU_wb m a0 v0 =
     (let a = a0 AND 0xFFFF; v = v0 AND 0xFF in
      if a < 0x8000 then m\<lparr>cart := Cartridge_write (cart m) a v\<rparr>
      else if a < 0xA000 then m\<lparr>ppu := PPU_write (ppu m) a v\<rparr>
      else if a < 0xC000 then m\<lparr>cart := Cartridge_write (cart m) a v\<rparr>
      else if a < 0xE000 then m\<lparr>wram := (wram m)(a - 0xC000 := v)\<rparr>
      else if a < 0xFE00 then m\<lparr>wram := (wram m)(a - 0xE000 := v)\<rparr>
      else if a < 0xFEA0 then m\<lparr>ppu := PPU_write (ppu m) a v\<rparr>
      else if a < 0xFF00 then m
      else if a = 0xFF00 then m\<lparr>joy := Joypad_write (joy m) v\<rparr>
      else if a = 0xFF01 then m\<lparr>sb := v\<rparr>
      else if a = 0xFF02 then m\<lparr>sc := v\<rparr>
      else if 0xFF04 \<le> a \<and> a \<le> 0xFF07 then m\<lparr>timer := Timer_write (timer m) a v\<rparr>
      else if a = 0xFF0F then m\<lparr>IF := v AND 0x1F\<rparr>
      else if a = 0xFF46 then fold (dma_copy (push_bit 8 v)) [0..159] m
      else if 0xFF10 \<le> a \<and> a < 0xFF40 then m
      else if 0xFF40 \<le> a \<and> a \<le> 0xFF4B then m\<lparr>ppu := PPU_write (ppu m) a v\<rparr>
      else if 0xFF80 \<le> a \<and> a < 0xFFFF then m\<lparr>hram := (hram m)(a - 0xFF80 := v)\<rparr>
      else if a = 0xFFFF then m\<lparr>IE := v\<rparr>
      else m)"

definition MMU_rw :: "mmu_state \<Rightarrow> int \<Rightarrow> int" where
  "MMU_rw m a = MMU_rb m a OR push_bit 8 (MMU_rb m ((a + 1) AND 0xFFFF))"

definition MMU_ww :: "mmu_state \<Rightarrow> int \<Rightarrow> int \<Rightarrow> mmu_state" where
  "MMU_ww m a v = MMU_wb (MMU_wb m a (v AND 0xFF)) ((a + 1) AND 0xFFFF) (drop_bit 8 v AND 0xFF)"

section \<open>SM83 CPU\<close>

text \<open>The registers \<^verbatim>\<open>a, f, b, c, d, e, h, l\<close> are the fields \<open>reg_a\<close> ... \<open>reg_l\<close>.\<close>

record cpu_state =
  mmu :: mmu_state
  pc :: int
  sp :: int
  reg_a :: int
  reg_f :: int
  reg_b :: int
  reg_c :: int
  reg_d :: int
  reg_e :: int
  reg_h :: int
  reg_l :: int
  halted :: bool
  ime :: bool
  ime_pending :: int
  cycles :: int

definition CPU_init :: "mmu_state \<Rightarrow> cpu_state" where
  "CPU_init m = \<lparr> mmu = m, pc = 0x0100, sp = 0xFFFE, reg_a = 0x01, reg_f = 0xB0,
     reg_b = 0x00, reg_c = 0x13, reg_d = 0x00, reg_e = 0xD8, reg_h = 0x01, reg_l = 0x4D,
     halted = False, ime = False, ime_pending = 0, cycles = 0 \<rparr>"

subsection \<open>Flag and register helpers\<close>

definition CPU_zf :: "cpu_state \<Rightarrow> bool" where "CPU_zf s = (reg_f s AND 0x80 \<noteq> 0)"
definition CPU_nf :: "cpu_state \<Rightarrow> bool" where "CPU_nf s = (reg_f s AND 0x40 \<noteq> 0)"
definition CPU_hf :: "cpu_state \<Rightarrow> bool" where "CPU_hf s = (reg_f s AND 0x20 \<noteq> 0)"
definition CPU_cf :: "cpu_state \<Rightarrow> bool" where "CPU_cf s = (reg_f s AND 0x10 \<noteq> 0)"

definition CPU_sf :: "cpu_state \<Rightarrow> bool \<Rightarrow> bool \<Rightarrow> bool \<Rightarrow> bool \<Rightarrow> cpu_state" where
  "CPU_sf s z n h c = s\<lparr>reg_f := (if z then 0x80 else 0) OR (if n then 0x40 else 0)
                                 OR (if h then 0x20 else 0) OR (if c then 0x10 else 0)\<rparr>"

definition CPU_af :: "cpu_state \<Rightarrow> int" where "CPU_af s = push_bit 8 (reg_a s) OR (reg_f s AND 0xF0)"
definition CPU_bc :: "cpu_state \<Rightarrow> int" where "CPU_bc s = push_bit 8 (reg_b s) OR reg_c s"
definition CPU_de :: "cpu_state \<Rightarrow> int" where "CPU_de s = push_bit 8 (reg_d s) OR reg_e s"
definition CPU_hl :: "cpu_state \<Rightarrow> int" where "CPU_hl s = push_bit 8 (reg_h s) OR reg_l s"

definition CPU_set_af :: "cpu_state \<Rightarrow> int \<Rightarrow> cpu_state" where
  "CPU_set_af s v0 = (let v = v0 AND 0xFFF0 in s\<lparr>reg_a := drop_bit 8 v AND 0xFF, reg_f := v AND 0xFF\<rparr>)"
definition CPU_set_bc :: "cpu_state \<Rightarrow> int \<Rightarrow> cpu_state" where
  "CPU_set_bc s v = s\<lparr>reg_b := drop_bit 8 v AND 0xFF, reg_c := v AND 0xFF\<rparr>"
definition CPU_set_de :: "cpu_state \<Rightarrow> int \<Rightarrow> cpu_state" where
  "CPU_set_de s v = s\<lparr>reg_d := drop_bit 8 v AND 0xFF, reg_e := v AND 0xFF\<rparr>"
definition CPU_set_hl :: "cpu_state \<Rightarrow> int \<Rightarrow> cpu_state" where
  "CPU_set_hl s v = s\<lparr>reg_h := drop_bit 8 v AND 0xFF, reg_l := v AND 0xFF\<rparr>"

definition CPU_r8 :: "cpu_state \<Rightarrow> int \<Rightarrow> int" where
  "CPU_r8 s reg = [reg_b s, reg_c s, reg_d s, reg_e s, reg_h s, reg_l s,
                   MMU_rb (mmu s) (CPU_hl s), reg_a s] ! nat reg"

definition CPU_w8 :: "cpu_state \<Rightarrow> int \<Rightarrow> int \<Rightarrow> cpu_state" where
  "CPU_w8 s reg v0 =
     (let v = v0 AND 0xFF in
      if reg = 0 then s\<lparr>reg_b := v\<rparr>
      else if reg = 1 then s\<lparr>reg_c := v\<rparr>
      else if reg = 2 then s\<lparr>reg_d := v\<rparr>
      else if reg = 3 then s\<lparr>reg_e := v\<rparr>
      else if reg = 4 then s\<lparr>reg_h := v\<rparr>
      else if reg = 5 then s\<lparr>reg_l := v\<rparr>
      else if reg = 6 then s\<lparr>mmu := MMU_wb (mmu s) (CPU_hl s) v\<rparr>
      else if reg = 7 then s\<lparr>reg_a := v\<rparr>
      else s)"

definition CPU_fetch :: "cpu_state \<Rightarrow> int \<times> cpu_state" where
  "CPU_fetch s = (MMU_rb (mmu s) (pc s), s\<lparr>pc := (pc s + 1) AND 0xFFFF\<rparr>)"

definition CPU_fetch16 :: "cpu_state \<Rightarrow> int \<times> cpu_state" where
  "CPU_fetch16 s = (let (lo, s) = CPU_fetch s; (hi, s) = CPU_fetch s in (lo OR push_bit 8 hi, s))"

subsection \<open>ALU\<close>

definition CPU_add :: "cpu_state \<Rightarrow> int \<Rightarrow> int \<Rightarrow> cpu_state" where
  "CPU_add s v carry =
     (let r = reg_a s + v + carry;
          s = CPU_sf s (r AND 0xFF = 0) False ((reg_a s AND 0xF) + (v AND 0xF) + carry > 0xF) (r > 0xFF)
      in s\<lparr>reg_a := r AND 0xFF\<rparr>)"

definition CPU_sub :: "cpu_state \<Rightarrow> int \<Rightarrow> int \<Rightarrow> cpu_state" where
  "CPU_sub s v carry =
     (let r = reg_a s - v - carry;
          s = CPU_sf s (r AND 0xFF = 0) True ((reg_a s AND 0xF) - (v AND 0xF) - carry < 0) (r < 0)
      in s\<lparr>reg_a := r AND 0xFF\<rparr>)"

definition CPU_and :: "cpu_state \<Rightarrow> int \<Rightarrow> cpu_state" where
  "CPU_and s v = (let s = s\<lparr>reg_a := reg_a s AND v\<rparr> in CPU_sf s (reg_a s = 0) False True False)"

definition CPU_xor :: "cpu_state \<Rightarrow> int \<Rightarrow> cpu_state" where
  "CPU_xor s v = (let s = s\<lparr>reg_a := reg_a s XOR v\<rparr> in CPU_sf s (reg_a s = 0) False False False)"

definition CPU_or :: "cpu_state \<Rightarrow> int \<Rightarrow> cpu_state" where
  "CPU_or s v = (let s = s\<lparr>reg_a := reg_a s OR v\<rparr> in CPU_sf s (reg_a s = 0) False False False)"

definition CPU_cp :: "cpu_state \<Rightarrow> int \<Rightarrow> cpu_state" where
  "CPU_cp s v =
     (let r = reg_a s - v
      in CPU_sf s (r AND 0xFF = 0) True ((reg_a s AND 0xF) - (v AND 0xF) < 0) (r < 0))"

definition CPU_add_hl :: "cpu_state \<Rightarrow> int \<Rightarrow> cpu_state" where
  "CPU_add_hl s v =
     (let hl = CPU_hl s; r = hl + v;
          h = ((hl AND 0xFFF) + (v AND 0xFFF) > 0xFFF);
          s = CPU_sf s (CPU_zf s) False h (r > 0xFFFF)
      in CPU_set_hl s (r AND 0xFFFF))"

definition CPU_inc8 :: "cpu_state \<Rightarrow> int \<Rightarrow> int \<times> cpu_state" where
  "CPU_inc8 s v = (let r = (v + 1) AND 0xFF in (r, CPU_sf s (r = 0) False (v AND 0xF = 0xF) (CPU_cf s)))"

definition CPU_dec8 :: "cpu_state \<Rightarrow> int \<Rightarrow> int \<times> cpu_state" where
  "CPU_dec8 s v = (let r = (v - 1) AND 0xFF in (r, CPU_sf s (r = 0) True (v AND 0xF = 0) (CPU_cf s)))"

text \<open>
  \<^verbatim>\<open>_rl\<close> and \<^verbatim>\<open>_rr\<close> with their \<^verbatim>\<open>thru\<close> parameter. In \<^verbatim>\<open>_rl\<close> the first assignment to
  \<^verbatim>\<open>r\<close> is overwritten by the \<^verbatim>\<open>if thru\<close> statement that follows it; the value kept is
  the one below.
\<close>

definition CPU_rl :: "cpu_state \<Rightarrow> int \<Rightarrow> bool \<Rightarrow> int \<times> cpu_state" where
  "CPU_rl s v thru =
     (let c = (if thru then (if CPU_cf s then 1 else 0) else drop_bit 7 v AND 1);
          r = (if thru then (push_bit 1 v OR (if CPU_cf s then 1 else 0)) AND 0xFF
               else (push_bit 1 v OR c) AND 0xFF)
      in (r, CPU_sf s (r = 0) False False (v AND 0x80 \<noteq> 0)))"

definition CPU_rr :: "cpu_state \<Rightarrow> int \<Rightarrow> bool \<Rightarrow> int \<times> cpu_state" where
  "CPU_rr s v thru =
     (let c = v AND 1;
          r = (if thru then (drop_bit 1 v OR (if CPU_cf s then 0x80 else 0)) AND 0xFF
               else (drop_bit 1 v OR push_bit 7 c) AND 0xFF)
      in (r, CPU_sf s (r = 0) False False (c \<noteq> 0)))"

definition CPU_sla :: "cpu_state \<Rightarrow> int \<Rightarrow> int \<times> cpu_state" where
  "CPU_sla s v = (let r = push_bit 1 v AND 0xFF in (r, CPU_sf s (r = 0) False False (v AND 0x80 \<noteq> 0)))"

definition CPU_sra :: "cpu_state \<Rightarrow> int \<Rightarrow> int \<times> cpu_state" where
  "CPU_sra s v =
     (let r = (drop_bit 1 v OR (v AND 0x80)) AND 0xFF in (r, CPU_sf s (r = 0) False False (v AND 1 \<noteq> 0)))"

definition CPU_srl :: "cpu_state \<Rightarrow> int \<Rightarrow> int \<times> cpu_state" where
  "CPU_srl s v = (let r = drop_bit 1 v AND 0xFF in (r, CPU_sf s (r = 0) False False (v AND 1 \<noteq> 0)))"

definition CPU_swap :: "cpu_state \<Rightarrow> int \<Rightarrow> int \<times> cpu_state" where
  "CPU_swap s v =
     (let r = push_bit 4 (v AND 0xF) OR (drop_bit 4 v AND 0xF) in (r, CPU_sf s (r = 0) False False False))"

definition CPU_bit :: "cpu_state \<Rightarrow> int \<Rightarrow> int \<Rightarrow> cpu_state" where
  "CPU_bit s n v = CPU_sf s (\<not> (v AND push_bit (nat n) 1 \<noteq> 0)) False True (CPU_cf s)"

definition CPU_set_b :: "int \<Rightarrow> int \<Rightarrow> int" where
  "CPU_set_b n v = v OR push_bit (nat n) 1"

definition CPU_res_b :: "int \<Rightarrow> int \<Rightarrow> int" where
  "CPU_res_b n v = v AND NOT (push_bit (nat n) 1)"

subsection \<open>Stack and control flow\<close>

definition CPU_push :: "cpu_state \<Rightarrow> int \<Rightarrow> cpu_state" where
  "CPU_push s v = (let s = s\<lparr>sp := (sp s - 2) AND 0xFFFF\<rparr> in s\<lparr>mmu := MMU_ww (mmu s) (sp s) v\<rparr>)"

definition CPU_pop :: "cpu_state \<Rightarrow> int \<times> cpu_state" where
  "CPU_pop s = (MMU_rw (mmu s) (sp s), s\<lparr>sp := (sp s + 2) AND 0xFFFF\<rparr>)"

definition CPU_call :: "cpu_state \<Rightarrow> int \<Rightarrow> cpu_state" where
  "CPU_call s a = (let s = CPU_push s (pc s AND 0xFFFF) in s\<lparr>pc := a\<rparr>)"

definition CPU_ret :: "cpu_state \<Rightarrow> cpu_state" where
  "CPU_ret s = (let (v, s) = CPU_pop s in s\<lparr>pc := v\<rparr>)"

definition CPU_jr :: "cpu_state \<Rightarrow> int \<Rightarrow> cpu_state" where
  "CPU_jr s offset = s\<lparr>pc := (pc s + ((offset XOR 0x80) - 0x80)) AND 0xFFFF\<rparr>"

definition CPU_sp_add :: "cpu_state \<Rightarrow> int \<Rightarrow> int \<times> cpu_state" where
  "CPU_sp_add s v =
     (let sv = (v XOR 0x80) - 0x80;
          r = (sp s + sv) AND 0xFFFF
      in (r, CPU_sf s False False ((sp s AND 0xF) + (v AND 0xF) > 0xF)
                                   ((sp s AND 0xFF) + (v AND 0xFF) > 0xFF)))"

subsection \<open>Interrupt handling\<close>

text \<open>
  The loop of \<^verbatim>\<open>handle_interrupts\<close> over the (bit, vector) pairs: the first pending bit is
  served and the method returns.
\<close>

fun CPU_dispatch :: "cpu_state \<Rightarrow> int \<Rightarrow> (nat \<times> int) list \<Rightarrow> cpu_state" where
  "CPU_dispatch s fired [] = s"
| "CPU_dispatch s fired ((b, vec) # rest) =
     (if fired AND push_bit b 1 \<noteq> 0 then
        (let s = s\<lparr>mmu := (mmu s)\<lparr>IF := IF (mmu s) AND NOT (push_bit b 1)\<rparr>\<rparr>;
             s = CPU_push s (pc s);
             s = s\<lparr>pc := vec\<rparr>
         in s\<lparr>cycles := cycles s + 20\<rparr>)
      else CPU_dispatch s fired rest)"

definition CPU_handle_interrupts :: "cpu_state \<Rightarrow> cpu_state" where
  "CPU_handle_interrupts s =
     (let fired = IE (mmu s) AND IF (mmu s) AND 0x1F in
      if fired \<noteq> 0 then
        (let s = (if halted s then s\<lparr>halted := False\<rparr> else s) in
         if ime s then
           CPU_dispatch (s\<lparr>ime := False\<rparr>) fired [(0, 0x40), (1, 0x48), (2, 0x50), (3, 0x58), (4, 0x60)]
         else s)
      else s)"

subsection \<open>The opcode table\<close>

text \<open>
  The table of \<^verbatim>\<open>CPU.step\<close> (lines 485 to 662) is one \<^verbatim>\<open>if/elif\<close> chain; each branch
  changes the state and sets the cost \<^verbatim>\<open>c\<close>, which starts at 4. The chain is written
  here in four consecutive pieces, each ending in the next, and returns the cost with the
  state. An opcode without a branch (\<^verbatim>\<open>0xD3\<close>, \<^verbatim>\<open>0xDB\<close>, \<^verbatim>\<open>0xDD\<close>, \<^verbatim>\<open>0xE3\<close>, \<^verbatim>\<open>0xE4\<close>,
  \<^verbatim>\<open>0xEB\<close>, \<^verbatim>\<open>0xEC\<close>, \<^verbatim>\<open>0xED\<close>, \<^verbatim>\<open>0xF4\<close>, \<^verbatim>\<open>0xFC\<close>, \<^verbatim>\<open>0xFD\<close>) falls through the chain.

  \<open>CPU_daa\<close> is the body of the branch of opcode \<^verbatim>\<open>0x27\<close>. In \<^verbatim>\<open>_cb\<close> the statements
  under \<^verbatim>\<open>if bit==0\<close> after the rotate only assign two unused locals.
\<close>

definition CPU_daa :: "cpu_state \<Rightarrow> cpu_state" where
  "CPU_daa s =
     (let a = reg_a s;
          (a, s) =
            (if \<not> CPU_nf s then
               (let a = (if CPU_hf s \<or> (a AND 0xF) > 9 then a + 6 else a)
                in if CPU_cf s \<or> a > 0x99 then (a + 0x60, s\<lparr>reg_f := reg_f s OR 0x10\<rparr>) else (a, s))
             else
               (let a = (if CPU_hf s then a - 6 else a);
                    a = (if CPU_cf s then a - 0x60 else a)
                in (a, s)));
          s = s\<lparr>reg_a := a AND 0xFF\<rparr>
      in s\<lparr>reg_f := (reg_f s AND NOT 0xA0) OR (if reg_a s = 0 then 0x80 else 0)\<rparr>)"

definition CPU_cb :: "cpu_state \<Rightarrow> int \<times> cpu_state" where
  "CPU_cb s =
     (let (op, s) = CPU_fetch s;
          reg = op AND 7; bt = drop_bit 3 op AND 7; grp = drop_bit 6 op;
          v = CPU_r8 s reg; c = 8 + (if reg = 6 then 4 else 0)
      in if grp = 0 then
           (let (v, s) =
              (if bt = 0 then CPU_rl s v True
               else if bt = 1 then CPU_rr s v True
               else if bt = 2 then CPU_rl s v True
               else if bt = 3 then CPU_rr s v True
               else if bt = 4 then CPU_sla s v
               else if bt = 5 then CPU_sra s v
               else if bt = 6 then CPU_swap s v
               else if bt = 7 then CPU_srl s v
               else (v, s))
            in (c + 4, CPU_w8 s reg v))
         else if grp = 1 then (8 + (if reg = 6 then 4 else 0) + 4, CPU_bit s bt v)
         else if grp = 2 then (8 + (if reg = 6 then 4 else 0) + 4, CPU_w8 s reg (CPU_res_b bt v))
         else if grp = 3 then (8 + (if reg = 6 then 4 else 0) + 4, CPU_w8 s reg (CPU_set_b bt v))
         else (c + 4, s))"

definition CPU_exec_C0_FF :: "cpu_state \<Rightarrow> int \<Rightarrow> int \<times> cpu_state" where
  "CPU_exec_C0_FF s op =
     (if op = 0xC0 then (if \<not> CPU_zf s then (20, CPU_ret s) else (8, s))
      else if op = 0xC1 then (let (v, s) = CPU_pop s in (12, CPU_set_bc s v))
      else if op = 0xC2 then
        (let (a, s) = CPU_fetch16 s in if \<not> CPU_zf s then (16, s\<lparr>pc := a\<rparr>) else (12, s))
      else if op = 0xC3 then (let (a, s) = CPU_fetch16 s in (16, s\<lparr>pc := a\<rparr>))
      else if op = 0xC4 then
        (let (a, s) = CPU_fetch16 s in if \<not> CPU_zf s then (24, CPU_call s a) else (12, s))
      else if op = 0xC5 then (16, CPU_push s (CPU_bc s))
      else if op = 0xC6 then (let (v, s) = CPU_fetch s in (8, CPU_add s v 0))
      else if op = 0xC7 then (16, CPU_call s 0x00)
      else if op = 0xC8 then (if CPU_zf s then (20, CPU_ret s) else (8, s))
      else if op = 0xC9 then (16, CPU_ret s)
      else if op = 0xCA then
        (let (a, s) = CPU_fetch16 s in if CPU_zf s then (16, s\<lparr>pc := a\<rparr>) else (12, s))
      else if op = 0xCB then CPU_cb s
      else if op = 0xCC then
        (let (a, s) = CPU_fetch16 s in if CPU_zf s then (24, CPU_call s a) else (12, s))
      else if op = 0xCD then (let (a, s) = CPU_fetch16 s in (24, CPU_call s a))
      else if op = 0xCE then
        (let (v, s) = CPU_fetch s in (8, CPU_add s v (if CPU_cf s then 1 else 0)))
      else if op = 0xCF then (16, CPU_call s 0x08)
      else if op = 0xD0 then (if \<not> CPU_cf s then (20, CPU_ret s) else (8, s))
      else if op = 0xD1 then (let (v, s) = CPU_pop s in (12, CPU_set_de s v))
      else if op = 0xD2 then
        (let (a, s) = CPU_fetch16 s in if \<not> CPU_cf s then (16, s\<lparr>pc := a\<rparr>) else (12, s))
      else if op = 0xD4 then
        (let (a, s) = CPU_fetch16 s in if \<not> CPU_cf s then (24, CPU_call s a) else (12, s))
      else if op = 0xD5 then (16, CPU_push s (CPU_de s))
      else if op = 0xD6 then (let (v, s) = CPU_fetch s in (8, CPU_sub s v 0))
      else if op = 0xD7 then (16, CPU_call s 0x10)
      else if op = 0xD8 then (if CPU_cf s then (20, CPU_ret s) else (8, s))
      else if op = 0xD9 then (let s = CPU_ret s in (16, s\<lparr>ime := True\<rparr>))
      else if op = 0xDA then
        (let (a, s) = CPU_fetch16 s in if CPU_cf s then (16, s\<lparr>pc := a\<rparr>) else (12, s))
      else if op = 0xDC then
        (let (a, s) = CPU_fetch16 s in if CPU_cf s then (24, CPU_call s a) else (12, s))
      else if op = 0xDE then
        (let (v, s) = CPU_fetch s in (8, CPU_sub s v (if CPU_cf s then 1 else 0)))
      else if op = 0xDF then (16, CPU_call s 0x18)
      else if op = 0xE0 then
        (let (v, s) = CPU_fetch s in (12, s\<lparr>mmu := MMU_wb (mmu s) (0xFF00 OR v) (reg_a s)\<rparr>))
      else if op = 0xE1 then (let (v, s) = CPU_pop s in (12, CPU_set_hl s v))
      else if op = 0xE2 then (8, s\<lparr>mmu := MMU_wb (mmu s) (0xFF00 OR reg_c s) (reg_a s)\<rparr>)
      else if op = 0xE5 then (16, CPU_push s (CPU_hl s))
      else if op = 0xE6 then (let (v, s) = CPU_fetch s in (8, CPU_and s v))
      else if op = 0xE7 then (16, CPU_call s 0x20)
      else if op = 0xE8 then
        (let (v, s) = CPU_fetch s; (r, s) = CPU_sp_add s v in (16, s\<lparr>sp := r\<rparr>))
      else if op = 0xE9 then (4, s\<lparr>pc := CPU_hl s\<rparr>)
      else if op = 0xEA then
        (let (a, s) = CPU_fetch16 s in (16, s\<lparr>mmu := MMU_wb (mmu s) a (reg_a s)\<rparr>))
      else if op = 0xEE then (let (v, s) = CPU_fetch s in (8, CPU_xor s v))
      else if op = 0xEF then (16, CPU_call s 0x28)
      else if op = 0xF0 then
        (let (v, s) = CPU_fetch s in (12, s\<lparr>reg_a := MMU_rb (mmu s) (0xFF00 OR v)\<rparr>))
      else if op = 0xF1 then (let (v, s) = CPU_pop s in (12, CPU_set_af s v))
      else if op = 0xF2 then (8, s\<lparr>reg_a := MMU_rb (mmu s) (0xFF00 OR reg_c s)\<rparr>)
      else if op = 0xF3 then (4, s\<lparr>ime := False, ime_pending := 0\<rparr>)
      else if op = 0xF5 then (16, CPU_push s (CPU_af s))
      else if op = 0xF6 then (let (v, s) = CPU_fetch s in (8, CPU_or s v))
      else if op = 0xF7 then (16, CPU_call s 0x30)
      else if op = 0xF8 then
        (let (v, s) = CPU_fetch s; (r, s) = CPU_sp_add s v in (12, CPU_set_hl s r))
      else if op = 0xF9 then (8, s\<lparr>sp := CPU_hl s\<rparr>)
      else if op = 0xFA then
        (let (a, s) = CPU_fetch16 s in (16, s\<lparr>reg_a := MMU_rb (mmu s) a\<rparr>))
      else if op = 0xFB then (4, s\<lparr>ime_pending := 2\<rparr>)
      else if op = 0xFE then (let (v, s) = CPU_fetch s in (8, CPU_cp s v))
      else if op = 0xFF then (16, CPU_call s 0x38)
      else (4, s))"

definition CPU_exec_80_BF :: "cpu_state \<Rightarrow> int \<Rightarrow> int \<times> cpu_state" where
  "CPU_exec_80_BF s op =
     (if 0x80 \<le> op \<and> op \<le> 0x87 then
        (4 + (if op AND 7 = 6 then 4 else 0), CPU_add s (CPU_r8 s (op AND 7)) 0)
      else if 0x88 \<le> op \<and> op \<le> 0x8F then
        (4 + (if op AND 7 = 6 then 4 else 0),
         CPU_add s (CPU_r8 s (op AND 7)) (if CPU_cf s then 1 else 0))
      else if 0x90 \<le> op \<and> op \<le> 0x97 then
        (4 + (if op AND 7 = 6 then 4 else 0), CPU_sub s (CPU_r8 s (op AND 7)) 0)
      else if 0x98 \<le> op \<and> op \<le> 0x9F then
        (4 + (if op AND 7 = 6 then 4 else 0),
         CPU_sub s (CPU_r8 s (op AND 7)) (if CPU_cf s then 1 else 0))
      else if 0xA0 \<le> op \<and> op \<le> 0xA7 then
        (4 + (if op AND 7 = 6 then 4 else 0), CPU_and s (CPU_r8 s (op AND 7)))
      else if 0xA8 \<le> op \<and> op \<le> 0xAF then
        (4 + (if op AND 7 = 6 then 4 else 0), CPU_xor s (CPU_r8 s (op AND 7)))
      else if 0xB0 \<le> op \<and> op \<le> 0xB7 then
        (4 + (if op AND 7 = 6 then 4 else 0), CPU_or s (CPU_r8 s (op AND 7)))
      else if 0xB8 \<le> op \<and> op \<le> 0xBF then
        (4 + (if op AND 7 = 6 then 4 else 0), CPU_cp s (CPU_r8 s (op AND 7)))
      else CPU_exec_C0_FF s op)"

definition CPU_exec_40_7F :: "cpu_state \<Rightarrow> int \<Rightarrow> int \<times> cpu_state" where
  "CPU_exec_40_7F s op =
     (if 0x40 \<le> op \<and> op \<le> 0x7F then
        (if op = 0x76 then (4, s\<lparr>halted := True\<rparr>)
         else
           (let dst = drop_bit 3 (op - 0x40); src = op AND 7;
                v = CPU_r8 s src;
                s = CPU_w8 s dst v
            in (if src = 6 \<or> dst = 6 then 8 else 4, s)))
      else CPU_exec_80_BF s op)"

definition CPU_exec :: "cpu_state \<Rightarrow> int \<Rightarrow> int \<times> cpu_state" where
  "CPU_exec s op =
     (if op = 0x00 then (4, s)
      else if op = 0x01 then (let (v, s) = CPU_fetch16 s in (12, CPU_set_bc s v))
      else if op = 0x02 then (8, s\<lparr>mmu := MMU_wb (mmu s) (CPU_bc s) (reg_a s)\<rparr>)
      else if op = 0x03 then (8, CPU_set_bc s ((CPU_bc s + 1) AND 0xFFFF))
      else if op = 0x04 then (let (r, s) = CPU_inc8 s (reg_b s) in (4, s\<lparr>reg_b := r\<rparr>))
      else if op = 0x05 then (let (r, s) = CPU_dec8 s (reg_b s) in (4, s\<lparr>reg_b := r\<rparr>))
      else if op = 0x06 then (let (v, s) = CPU_fetch s in (8, s\<lparr>reg_b := v\<rparr>))
      else if op = 0x07 then
        (let c2 = drop_bit 7 (reg_a s);
             s = s\<lparr>reg_a := (push_bit 1 (reg_a s) OR c2) AND 0xFF\<rparr>
         in (4, CPU_sf s False False False (c2 \<noteq> 0)))
      else if op = 0x08 then
        (let (a, s) = CPU_fetch16 s in (20, s\<lparr>mmu := MMU_ww (mmu s) a (sp s)\<rparr>))
      else if op = 0x09 then (8, CPU_add_hl s (CPU_bc s))
      else if op = 0x0A then (8, s\<lparr>reg_a := MMU_rb (mmu s) (CPU_bc s)\<rparr>)
      else if op = 0x0B then (8, CPU_set_bc s ((CPU_bc s - 1) AND 0xFFFF))
      else if op = 0x0C then (let (r, s) = CPU_inc8 s (reg_c s) in (4, s\<lparr>reg_c := r\<rparr>))
      else if op = 0x0D then (let (r, s) = CPU_dec8 s (reg_c s) in (4, s\<lparr>reg_c := r\<rparr>))
      else if op = 0x0E then (let (v, s) = CPU_fetch s in (8, s\<lparr>reg_c := v\<rparr>))
      else if op = 0x0F then
        (let c2 = reg_a s AND 1;
             s = s\<lparr>reg_a := (drop_bit 1 (reg_a s) OR push_bit 7 c2) AND 0xFF\<rparr>
         in (4, CPU_sf s False False False (c2 \<noteq> 0)))
      else if op = 0x10 then (let (v, s) = CPU_fetch s in (4, s))
      else if op = 0x11 then (let (v, s) = CPU_fetch16 s in (12, CPU_set_de s v))
      else if op = 0x12 then (8, s\<lparr>mmu := MMU_wb (mmu s) (CPU_de s) (reg_a s)\<rparr>)
      else if op = 0x13 then (8, CPU_set_de s ((CPU_de s + 1) AND 0xFFFF))
      else if op = 0x14 then (let (r, s) = CPU_inc8 s (reg_d s) in (4, s\<lparr>reg_d := r\<rparr>))
      else if op = 0x15 then (let (r, s) = CPU_dec8 s (reg_d s) in (4, s\<lparr>reg_d := r\<rparr>))
      else if op = 0x16 then (let (v, s) = CPU_fetch s in (8, s\<lparr>reg_d := v\<rparr>))
      else if op = 0x17 then
        (let c2 = CPU_cf s; nc = drop_bit 7 (reg_a s);
             s = s\<lparr>reg_a := (push_bit 1 (reg_a s) OR (if c2 then 1 else 0)) AND 0xFF\<rparr>
         in (4, CPU_sf s False False False (nc \<noteq> 0)))
      else if op = 0x18 then (let (d, s) = CPU_fetch s in (12, CPU_jr s d))
      else if op = 0x19 then (8, CPU_add_hl s (CPU_de s))
      else if op = 0x1A then (8, s\<lparr>reg_a := MMU_rb (mmu s) (CPU_de s)\<rparr>)
      else if op = 0x1B then (8, CPU_set_de s ((CPU_de s - 1) AND 0xFFFF))
      else if op = 0x1C then (let (r, s) = CPU_inc8 s (reg_e s) in (4, s\<lparr>reg_e := r\<rparr>))
      else if op = 0x1D then (let (r, s) = CPU_dec8 s (reg_e s) in (4, s\<lparr>reg_e := r\<rparr>))
      else if op = 0x1E then (let (v, s) = CPU_fetch s in (8, s\<lparr>reg_e := v\<rparr>))
      else if op = 0x1F then
        (let c2 = reg_a s AND 1; nc = CPU_cf s;
             s = s\<lparr>reg_a := (drop_bit 1 (reg_a s) OR (if nc then 0x80 else 0)) AND 0xFF\<rparr>
         in (4, CPU_sf s False False False (c2 \<noteq> 0)))
      else if op = 0x20 then
        (let (d, s) = CPU_fetch s in if \<not> CPU_zf s then (12, CPU_jr s d) else (8, s))
      else if op = 0x21 then (let (v, s) = CPU_fetch16 s in (12, CPU_set_hl s v))
      else if op = 0x22 then
        (let s = s\<lparr>mmu := MMU_wb (mmu s) (CPU_hl s) (reg_a s)\<rparr>
         in (8, CPU_set_hl s ((CPU_hl s + 1) AND 0xFFFF)))
      else if op = 0x23 then (8, CPU_set_hl s ((CPU_hl s + 1) AND 0xFFFF))
      else if op = 0x24 then (let (r, s) = CPU_inc8 s (reg_h s) in (4, s\<lparr>reg_h := r\<rparr>))
      else if op = 0x25 then (let (r, s) = CPU_dec8 s (reg_h s) in (4, s\<lparr>reg_h := r\<rparr>))
      else if op = 0x26 then (let (v, s) = CPU_fetch s in (8, s\<lparr>reg_h := v\<rparr>))
      else if op = 0x27 then (4, CPU_daa s)
      else if op = 0x28 then
        (let (d, s) = CPU_fetch s in if CPU_zf s then (12, CPU_jr s d) else (8, s))
      else if op = 0x29 then (8, CPU_add_hl s (CPU_hl s))
      else if op = 0x2A then
        (let s = s\<lparr>reg_a := MMU_rb (mmu s) (CPU_hl s)\<rparr>
         in (8, CPU_set_hl s ((CPU_hl s + 1) AND 0xFFFF)))
      else if op = 0x2B then (8, CPU_set_hl s ((CPU_hl s - 1) AND 0xFFFF))
      else if op = 0x2C then (let (r, s) = CPU_inc8 s (reg_l s) in (4, s\<lparr>reg_l := r\<rparr>))
      else if op = 0x2D then (let (r, s) = CPU_dec8 s (reg_l s) in (4, s\<lparr>reg_l := r\<rparr>))
      else if op = 0x2E then (let (v, s) = CPU_fetch s in (8, s\<lparr>reg_l := v\<rparr>))
      else if op = 0x2F then (4, s\<lparr>reg_a := reg_a s XOR 0xFF, reg_f := reg_f s OR 0x60\<rparr>)
      else if op = 0x30 then
        (let (d, s) = CPU_fetch s in if \<not> CPU_cf s then (12, CPU_jr s d) else (8, s))
      else if op = 0x31 then (let (v, s) = CPU_fetch16 s in (12, s\<lparr>sp := v\<rparr>))
      else if op = 0x32 then
        (let s = s\<lparr>mmu := MMU_wb (mmu s) (CPU_hl s) (reg_a s)\<rparr>
         in (8, CPU_set_hl s ((CPU_hl s - 1) AND 0xFFFF)))
      else if op = 0x33 then (8, s\<lparr>sp := (sp s + 1) AND 0xFFFF\<rparr>)
      else if op = 0x34 then
        (let hl = CPU_hl s; (r, s) = CPU_inc8 s (MMU_rb (mmu s) hl)
         in (12, s\<lparr>mmu := MMU_wb (mmu s) hl r\<rparr>))
      else if op = 0x35 then
        (let hl = CPU_hl s; (r, s) = CPU_dec8 s (MMU_rb (mmu s) hl)
         in (12, s\<lparr>mmu := MMU_wb (mmu s) hl r\<rparr>))
      else if op = 0x36 then
        (let hl = CPU_hl s; (v, s) = CPU_fetch s in (12, s\<lparr>mmu := MMU_wb (mmu s) hl v\<rparr>))
      else if op = 0x37 then (4, CPU_sf s (CPU_zf s) False False True)
      else if op = 0x38 then
        (let (d, s) = CPU_fetch s in if CPU_cf s then (12, CPU_jr s d) else (8, s))
      else if op = 0x39 then (8, CPU_add_hl s (sp s))
      else if op = 0x3A then
        (let s = s\<lparr>reg_a := MMU_rb (mmu s) (CPU_hl s)\<rparr>
         in (8, CPU_set_hl s ((CPU_hl s - 1) AND 0xFFFF)))
      else if op = 0x3B then (8, s\<lparr>sp := (sp s - 1) AND 0xFFFF\<rparr>)
      else if op = 0x3C then (let (r, s) = CPU_inc8 s (reg_a s) in (4, s\<lparr>reg_a := r\<rparr>))
      else if op = 0x3D then (let (r, s) = CPU_dec8 s (reg_a s) in (4, s\<lparr>reg_a := r\<rparr>))
      else if op = 0x3E then (let (v, s) = CPU_fetch s in (8, s\<lparr>reg_a := v\<rparr>))
      else if op = 0x3F then (4, CPU_sf s (CPU_zf s) False False (\<not> CPU_cf s))
      else CPU_exec_40_7F s op)"

subsection \<open>The step\<close>

text \<open>
  \<^verbatim>\<open>CPU.step\<close>: the EI delay, interrupt handling, the halted path, and then
  \<open>CPU_fetch_exec\<close>, which is the rest of the method: the fetch, the opcode table and
  \<^verbatim>\<open>self.cycles += c\<close>.
\<close>

definition CPU_fetch_exec :: "cpu_state \<Rightarrow> cpu_state" where
  "CPU_fetch_exec s =
     (let (op, s) = CPU_fetch s; (c, s) = CPU_exec s op in s\<lparr>cycles := cycles s + c\<rparr>)"

definition CPU_step :: "cpu_state \<Rightarrow> cpu_state" where
  "CPU_step s =
     (let s = (if ime_pending s > 0 then
                 (let s = s\<lparr>ime_pending := ime_pending s - 1\<rparr>
                  in if ime_pending s = 0 then s\<lparr>ime := True\<rparr> else s)
               else s);
          s = CPU_handle_interrupts s
      in if halted s then s\<lparr>cycles := cycles s + 4\<rparr> else CPU_fetch_exec s)"

section \<open>What one instruction costs\<close>

text \<open>No helper of the CPU touches the cycle counter; it is advanced at the end of the step.\<close>

named_theorems cpu_defs

lemmas [cpu_defs] = CPU_sf_def CPU_set_af_def CPU_set_bc_def CPU_set_de_def CPU_set_hl_def
  CPU_w8_def CPU_fetch_def CPU_fetch16_def CPU_add_def CPU_sub_def CPU_and_def CPU_xor_def
  CPU_or_def CPU_cp_def CPU_add_hl_def CPU_inc8_def CPU_dec8_def CPU_rl_def CPU_rr_def
  CPU_sla_def CPU_sra_def CPU_srl_def CPU_swap_def CPU_bit_def CPU_push_def CPU_pop_def
  CPU_call_def CPU_ret_def CPU_jr_def CPU_sp_add_def CPU_daa_def

lemma cycles_helpers [simp]:
  "cycles (CPU_sf s z n h c) = cycles s"
  "cycles (CPU_set_af s v) = cycles s"
  "cycles (CPU_set_bc s v) = cycles s"
  "cycles (CPU_set_de s v) = cycles s"
  "cycles (CPU_set_hl s v) = cycles s"
  "cycles (CPU_w8 s r v) = cycles s"
  "cycles (snd (CPU_fetch s)) = cycles s"
  "cycles (snd (CPU_fetch16 s)) = cycles s"
  "cycles (CPU_add s v cy) = cycles s"
  "cycles (CPU_sub s v cy) = cycles s"
  "cycles (CPU_and s v) = cycles s"
  "cycles (CPU_xor s v) = cycles s"
  "cycles (CPU_or s v) = cycles s"
  "cycles (CPU_cp s v) = cycles s"
  "cycles (CPU_add_hl s v) = cycles s"
  "cycles (snd (CPU_inc8 s v)) = cycles s"
  "cycles (snd (CPU_dec8 s v)) = cycles s"
  "cycles (snd (CPU_rl s v t)) = cycles s"
  "cycles (snd (CPU_rr s v t)) = cycles s"
  "cycles (snd (CPU_sla s v)) = cycles s"
  "cycles (snd (CPU_sra s v)) = cycles s"
  "cycles (snd (CPU_srl s v)) = cycles s"
  "cycles (snd (CPU_swap s v)) = cycles s"
  "cycles (CPU_bit s k v) = cycles s"
  "cycles (CPU_push s v) = cycles s"
  "cycles (snd (CPU_pop s)) = cycles s"
  "cycles (CPU_call s v) = cycles s"
  "cycles (CPU_ret s) = cycles s"
  "cycles (CPU_jr s v) = cycles s"
  "cycles (snd (CPU_sp_add s v)) = cycles s"
  "cycles (CPU_daa s) = cycles s"
  by (simp_all add: cpu_defs Let_def split_def)

lemma cb_cycles [simp]: "cycles (snd (CPU_cb s)) = cycles s"
  by (simp add: CPU_cb_def Let_def split_def)

lemma cb_cost: "fst (CPU_cb s) = 12 \<or> fst (CPU_cb s) = 16"
  by (simp add: CPU_cb_def Let_def split_def)

lemma exec_C0_FF_cycles [simp]: "cycles (snd (CPU_exec_C0_FF s op)) = cycles s"
  by (simp add: CPU_exec_C0_FF_def Let_def split_def)

lemma exec_80_BF_cycles [simp]: "cycles (snd (CPU_exec_80_BF s op)) = cycles s"
  by (simp add: CPU_exec_80_BF_def Let_def split_def)

lemma exec_40_7F_cycles [simp]: "cycles (snd (CPU_exec_40_7F s op)) = cycles s"
  by (simp add: CPU_exec_40_7F_def Let_def split_def)

lemma exec_cycles [simp]: "cycles (snd (CPU_exec s op)) = cycles s"
  by (simp add: CPU_exec_def Let_def split_def)

lemma exec_C0_FF_cost: "4 \<le> fst (CPU_exec_C0_FF s op) \<and> fst (CPU_exec_C0_FF s op) \<le> 24"
  using cb_cost [of s] by (auto simp add: CPU_exec_C0_FF_def Let_def split_def)

lemma exec_80_BF_cost: "4 \<le> fst (CPU_exec_80_BF s op) \<and> fst (CPU_exec_80_BF s op) \<le> 24"
  using exec_C0_FF_cost [of s op] by (simp add: CPU_exec_80_BF_def Let_def split_def)

lemma exec_40_7F_cost: "4 \<le> fst (CPU_exec_40_7F s op) \<and> fst (CPU_exec_40_7F s op) \<le> 24"
  using exec_80_BF_cost [of s op] by (simp add: CPU_exec_40_7F_def Let_def split_def)

lemma exec_cost: "4 \<le> fst (CPU_exec s op) \<and> fst (CPU_exec s op) \<le> 24"
  using exec_40_7F_cost [of s op] by (simp add: CPU_exec_def Let_def split_def)

lemma fetch_exec_cost:
  "cycles s + 4 \<le> cycles (CPU_fetch_exec s) \<and> cycles (CPU_fetch_exec s) \<le> cycles s + 24"
  using exec_cost [of "snd (CPU_fetch s)" "fst (CPU_fetch s)"]
  by (simp add: CPU_fetch_exec_def split_def Let_def)

lemma dispatch_cycles:
  "cycles (CPU_dispatch s fired l) = cycles s \<or> cycles (CPU_dispatch s fired l) = cycles s + 20"
  by (induction l) (auto simp add: Let_def split: if_splits)

lemma handle_interrupts_cycles:
  "cycles (CPU_handle_interrupts s) = cycles s \<or> cycles (CPU_handle_interrupts s) = cycles s + 20"
  using dispatch_cycles [of "(if halted s then s\<lparr>halted := False\<rparr> else s)\<lparr>ime := False\<rparr>"]
  by (auto simp add: CPU_handle_interrupts_def Let_def)

text \<open>
  A step costs at least 4 T-cycles (the halted path, or the cheapest instruction) and at
  most 44: an interrupt dispatch (20) followed, in the same call, by the instruction at
  the vector (at most 24).
\<close>

lemma step_cost:
  "cycles s + 4 \<le> cycles (CPU_step s) \<and> cycles (CPU_step s) \<le> cycles s + 44"
proof -
  define s1 where "s1 = (if ime_pending s > 0 then
                 (let s = s\<lparr>ime_pending := ime_pending s - 1\<rparr>
                  in if ime_pending s = 0 then s\<lparr>ime := True\<rparr> else s)
               else s)"
  have c1: "cycles s1 = cycles s" by (simp add: s1_def Let_def)
  define s2 where "s2 = CPU_handle_interrupts s1"
  have c2: "cycles s2 = cycles s \<or> cycles s2 = cycles s + 20"
    using handle_interrupts_cycles [of s1] by (simp add: s2_def c1)
  have st: "CPU_step s = (if halted s2 then s2\<lparr>cycles := cycles s2 + 4\<rparr> else CPU_fetch_exec s2)"
    by (simp add: CPU_step_def s1_def s2_def Let_def)
  show ?thesis using c2 fetch_exec_cost [of s2] by (auto simp add: st)
qed

section \<open>GameBoy\<close>

text \<open>
  The system object. After \<^verbatim>\<open>load\<close>, its \<^verbatim>\<open>ppu\<close>, \<^verbatim>\<open>timer\<close>, \<^verbatim>\<open>joy\<close>, \<^verbatim>\<open>cart\<close> and \<^verbatim>\<open>mmu\<close>
  are the objects the CPU reaches through its MMU, so the record holds the CPU (or
  \<open>None\<close> before a ROM is loaded) and the cycle total. \<open>frame_iter\<close> is the body of the
  \<^verbatim>\<open>while\<close> loop of \<^verbatim>\<open>run_frame\<close>, \<open>run_loop\<close> the loop.
\<close>

record gameboy =
  cpu :: "cpu_state option"
  total_cyc :: int

definition CYCLES_PER_FRAME :: int where
  "CYCLES_PER_FRAME = 70224"

definition GameBoy_init :: gameboy where
  "GameBoy_init = \<lparr> cpu = None, total_cyc = 0 \<rparr>"

text \<open>The CPU (with the machine behind it) as \<^verbatim>\<open>load\<close> builds it from the bytes of a ROM.\<close>

definition power_on :: "int list \<Rightarrow> cpu_state" where
  "power_on data = CPU_init (MMU_init (Cartridge_init data) PPU_init Timer_init Joypad_init)"

definition GameBoy_load :: "gameboy \<Rightarrow> int list \<Rightarrow> gameboy" where
  "GameBoy_load g data = g\<lparr>cpu := Some (power_on data), total_cyc := 0\<rparr>"

definition frame_iter :: "cpu_state \<times> int \<Rightarrow> error + cpu_state \<times> int" where
  "frame_iter st =
     (case st of (c, tot) \<Rightarrow>
        (let before_step = cycles c;
             c = CPU_step c;
             elapsed = cycles c - before_step;
             tot = tot + elapsed
         in case PPU_step (ppu (mmu c)) elapsed of
              Inl e \<Rightarrow> Inl e
            | Inr (vb, st, p) \<Rightarrow>
                (let c = c\<lparr>mmu := (mmu c)\<lparr>ppu := p\<rparr>\<rparr>;
                     (ti, t) = Timer_step (timer (mmu c)) elapsed;
                     c = c\<lparr>mmu := (mmu c)\<lparr>timer := t\<rparr>\<rparr>;
                     c = (if vb then c\<lparr>mmu := (mmu c)\<lparr>IF := IF (mmu c) OR 1\<rparr>\<rparr> else c);
                     c = (if st then c\<lparr>mmu := (mmu c)\<lparr>IF := IF (mmu c) OR 2\<rparr>\<rparr> else c);
                     c = (if ti then c\<lparr>mmu := (mmu c)\<lparr>IF := IF (mmu c) OR 4\<rparr>\<rparr> else c)
                 in Inr (c, tot))))"

lemma frame_iter_total:
  assumes "frame_iter (c, t) = Inr (c', t')"
  shows "t' = t + (cycles (CPU_step c) - cycles c)"
  using assms
  by (auto simp add: frame_iter_def Let_def split_def split: sum.splits)

lemma frame_iter_advance:
  assumes "frame_iter (c, t) = Inr (c', t')"
  shows "t + 4 \<le> t' \<and> t' \<le> t + 44"
  using frame_iter_total [OF assms] step_cost [of c] by simp

function run_loop :: "int \<Rightarrow> cpu_state \<times> int \<Rightarrow> error + cpu_state \<times> int" where
  "run_loop target st =
     (if snd st < target then
        (case frame_iter st of Inl e \<Rightarrow> Inl e | Inr st' \<Rightarrow> run_loop target st')
      else Inr st)"
  by pat_completeness auto
termination
proof (relation "measure (\<lambda>(target, st). nat (target - snd st))")
  show "wf (measure (\<lambda>(target, st). nat (target - snd st)))" by simp
next
  fix target :: int and st st' :: "cpu_state \<times> int"
  assume lt: "snd st < target" and it: "frame_iter st = Inr st'"
  have "frame_iter (fst st, snd st) = Inr (fst st', snd st')" using it by simp
  from frame_iter_advance [OF this] lt
  show "((target, st'), (target, st)) \<in> measure (\<lambda>(target, st). nat (target - snd st))"
    by simp
qed

definition GameBoy_run_frame :: "gameboy \<Rightarrow> error + gameboy" where
  "GameBoy_run_frame g =
     (case cpu g of
        None \<Rightarrow> Inr g
      | Some c \<Rightarrow>
          (case run_loop (total_cyc g + CYCLES_PER_FRAME) (c, total_cyc g) of
             Inl e \<Rightarrow> Inl e
           | Inr (c', tot) \<Rightarrow> Inr (g\<lparr>cpu := Some c', total_cyc := tot\<rparr>)))"

section \<open>The low nibble of F\<close>

text \<open>
  Every write to \<^verbatim>\<open>self.f\<close> goes through \<^verbatim>\<open>_sf\<close> (which builds F from the four flag
  bits), through \<^verbatim>\<open>_set_af\<close> (which masks with \<^verbatim>\<open>0xFFF0\<close>), or is one of the three
  in-place updates of DAA and CPL, which only touch the high nibble.
\<close>

lemma low_nibble_mask: "((v AND 0xFFF0) AND 0xFF) AND 15 = (0::int)"
  by (simp add: and.assoc)

lemma low_nibble_or:
  "(x::int) AND 15 = 0 \<Longrightarrow> (x OR 0x60) AND 15 = 0"
  "(x::int) AND 15 = 0 \<Longrightarrow> (x OR 0x10) AND 15 = 0"
  by (simp_all add: bit.conj_disj_distrib2)

lemma low_nibble_and: "(x::int) AND 15 = 0 \<Longrightarrow> (x AND m) AND 15 = 0"
  by (simp add: and.assoc and.commute [of m 15] flip: and.assoc [of x 15 m])

lemma low_nibble_daa:
  "(x::int) AND 15 = 0 \<Longrightarrow> ((x AND m) OR 128) AND 15 = 0"
  by (simp add: bit.conj_disj_distrib2 low_nibble_and)

lemma sf_low [simp]: "reg_f (CPU_sf s z n h c) AND 15 = 0"
  by (simp add: CPU_sf_def)

lemma flags_kept [simp]:
  "reg_f (CPU_set_bc s v) = reg_f s"
  "reg_f (CPU_set_de s v) = reg_f s"
  "reg_f (CPU_set_hl s v) = reg_f s"
  "reg_f (CPU_w8 s r v) = reg_f s"
  "reg_f (snd (CPU_fetch s)) = reg_f s"
  "reg_f (snd (CPU_fetch16 s)) = reg_f s"
  "reg_f (CPU_push s v) = reg_f s"
  "reg_f (snd (CPU_pop s)) = reg_f s"
  "reg_f (CPU_call s v) = reg_f s"
  "reg_f (CPU_ret s) = reg_f s"
  "reg_f (CPU_jr s v) = reg_f s"
  by (simp_all add: CPU_set_bc_def CPU_set_de_def CPU_set_hl_def CPU_w8_def CPU_fetch_def
        CPU_fetch16_def CPU_push_def CPU_pop_def CPU_call_def CPU_ret_def CPU_jr_def
        Let_def split_def)

lemma flags_low [simp]:
  "reg_f (CPU_set_af s v) AND 15 = 0"
  "reg_f (CPU_add s v cy) AND 15 = 0"
  "reg_f (CPU_sub s v cy) AND 15 = 0"
  "reg_f (CPU_and s v) AND 15 = 0"
  "reg_f (CPU_xor s v) AND 15 = 0"
  "reg_f (CPU_or s v) AND 15 = 0"
  "reg_f (CPU_cp s v) AND 15 = 0"
  "reg_f (CPU_add_hl s v) AND 15 = 0"
  "reg_f (snd (CPU_inc8 s v)) AND 15 = 0"
  "reg_f (snd (CPU_dec8 s v)) AND 15 = 0"
  "reg_f (snd (CPU_rl s v t)) AND 15 = 0"
  "reg_f (snd (CPU_rr s v t)) AND 15 = 0"
  "reg_f (snd (CPU_sla s v)) AND 15 = 0"
  "reg_f (snd (CPU_sra s v)) AND 15 = 0"
  "reg_f (snd (CPU_srl s v)) AND 15 = 0"
  "reg_f (snd (CPU_swap s v)) AND 15 = 0"
  "reg_f (CPU_bit s k v) AND 15 = 0"
  "reg_f (snd (CPU_sp_add s v)) AND 15 = 0"
  by (simp_all add: CPU_set_af_def low_nibble_mask CPU_add_def CPU_sub_def CPU_and_def
        CPU_xor_def CPU_or_def CPU_cp_def CPU_add_hl_def CPU_inc8_def CPU_dec8_def CPU_rl_def
        CPU_rr_def CPU_sla_def CPU_sra_def CPU_srl_def CPU_swap_def CPU_bit_def CPU_sp_add_def
        Let_def split_def del: sf_low, simp_all add: CPU_sf_def)

lemma daa_low: "reg_f s AND 15 = 0 \<Longrightarrow> reg_f (CPU_daa s) AND 15 = 0"
  by (simp add: CPU_daa_def Let_def split_def low_nibble_or low_nibble_daa low_nibble_and)

lemma cb_low: "reg_f s AND 15 = 0 \<Longrightarrow> reg_f (snd (CPU_cb s)) AND 15 = 0"
  by (simp add: CPU_cb_def Let_def split_def)

lemma exec_C0_FF_low: "reg_f s AND 15 = 0 \<Longrightarrow> reg_f (snd (CPU_exec_C0_FF s op)) AND 15 = 0"
  by (simp add: CPU_exec_C0_FF_def Let_def split_def cb_low)

lemma exec_80_BF_low: "reg_f s AND 15 = 0 \<Longrightarrow> reg_f (snd (CPU_exec_80_BF s op)) AND 15 = 0"
  by (simp add: CPU_exec_80_BF_def Let_def split_def exec_C0_FF_low)

lemma exec_40_7F_low: "reg_f s AND 15 = 0 \<Longrightarrow> reg_f (snd (CPU_exec_40_7F s op)) AND 15 = 0"
  by (simp add: CPU_exec_40_7F_def Let_def split_def exec_80_BF_low)

lemma exec_low: "reg_f s AND 15 = 0 \<Longrightarrow> reg_f (snd (CPU_exec s op)) AND 15 = 0"
  using exec_40_7F_low [of s op] daa_low [of s]
  by (simp add: CPU_exec_def Let_def split_def low_nibble_or)

lemma dispatch_flags [simp]: "reg_f (CPU_dispatch s fired l) = reg_f s"
  by (induction l) (auto simp add: Let_def)

lemma handle_interrupts_flags [simp]: "reg_f (CPU_handle_interrupts s) = reg_f s"
  by (simp add: CPU_handle_interrupts_def Let_def)

lemma step_low: "reg_f s AND 15 = 0 \<Longrightarrow> reg_f (CPU_step s) AND 15 = 0"
  by (simp add: CPU_step_def CPU_fetch_exec_def Let_def split_def exec_low)

section \<open>Evaluating the machine on concrete states\<close>

lemmas eval_defs = power_on_def CPU_init_def MMU_init_def Cartridge_init_def CPU_step_def
  CPU_handle_interrupts_def CPU_fetch_exec_def CPU_exec_def CPU_exec_40_7F_def
  CPU_exec_80_BF_def CPU_exec_C0_FF_def CPU_cb_def cpu_defs CPU_r8_def
  CPU_zf_def CPU_nf_def CPU_hf_def CPU_cf_def CPU_af_def CPU_bc_def CPU_de_def CPU_hl_def
  MMU_rb_def Cartridge_read_def Let_def

section \<open>The CB-prefixed rotates\<close>

text \<open>
  Claim C1 says that CB RLC yields \<^verbatim>\<open>((v<<1)|(v>>7))&0xFF\<close> and CB RRC yields
  \<^verbatim>\<open>((v>>1)|((v&1)<<7))&0xFF\<close>, whatever the carry flag holds. The code calls
  \<^verbatim>\<open>_rl(v,True)\<close> and \<^verbatim>\<open>_rr(v,True)\<close> for them, the through-carry rotates, although the
  comments beside the calls ask for \<^verbatim>\<open>thru=False\<close>. With B = \<^verbatim>\<open>0x80\<close> and carry clear,
  \<^verbatim>\<open>CB 00\<close> (RLC B) leaves B = 0 where the claim has 1; with B = 1 and carry clear,
  \<^verbatim>\<open>CB 08\<close> (RRC B) leaves B = 0 where the claim has \<^verbatim>\<open>0x80\<close>; with B = 0 and carry set
  the old carry is rotated in (B = 1 and B = \<^verbatim>\<open>0x80\<close>) where the claim has 0.
\<close>

theorem CB_RLC_RRC_rotate_through_carry:
  "reg_b (CPU_step ((power_on [0xCB, 0x00])\<lparr>pc := 0, reg_b := 0x80, reg_f := 0\<rparr>)) = 0x00
   \<and> reg_f (CPU_step ((power_on [0xCB, 0x00])\<lparr>pc := 0, reg_b := 0x80, reg_f := 0\<rparr>)) = 0x90
   \<and> reg_b (CPU_step ((power_on [0xCB, 0x08])\<lparr>pc := 0, reg_b := 0x01, reg_f := 0\<rparr>)) = 0x00
   \<and> reg_f (CPU_step ((power_on [0xCB, 0x08])\<lparr>pc := 0, reg_b := 0x01, reg_f := 0\<rparr>)) = 0x90
   \<and> reg_b (CPU_step ((power_on [0xCB, 0x00])\<lparr>pc := 0, reg_b := 0x00, reg_f := 0x10\<rparr>)) = 0x01
   \<and> reg_b (CPU_step ((power_on [0xCB, 0x08])\<lparr>pc := 0, reg_b := 0x00, reg_f := 0x10\<rparr>)) = 0x80"
  by (simp add: eval_defs)

section \<open>The tile-data address\<close>

text \<open>
  Claim C2 says that with LCDC bit 4 clear the tile index is signed and the two row
  bytes are read at VRAM offset \<^verbatim>\<open>0x1000 + index*16 + row*2\<close>. The code makes the index
  signed and then adds it to \<^verbatim>\<open>0x0800\<close>. With LCDC = \<^verbatim>\<open>0x81\<close>, a map of tile 0 and the
  bytes at \<^verbatim>\<open>0x1000\<close>, \<^verbatim>\<open>0x1001\<close> set to \<^verbatim>\<open>0xFF\<close>, pixel 0 of line 0 is read at \<^verbatim>\<open>0x0800\<close>:
  it gets colour index 0 and the RGB of shade 0, where the claim's address gives colour
  index 3. The arguments \<^verbatim>\<open>0x1800\<close>, \<^verbatim>\<open>0x0800\<close>, \<open>True\<close> are \<^verbatim>\<open>tmap\<close>, \<^verbatim>\<open>tdata\<close> and
  \<^verbatim>\<open>signed\<close> as \<open>render_bg\<close> computes them from this LCDC.
\<close>

theorem signed_tile_base_is_0x0800:
  "tile_addr True 0x0800 0 0 = 0x0800
   \<and> map_sum id (\<lambda>(p, bg_idx). (bg_idx 0, pixels p 0, pixels p 1, pixels p 2))
        (render_px 0x1800 0x0800 True 0 0
           (PPU_init\<lparr>lcdc := 0x81, vram := (\<lambda>_. 0)(0x1000 := 0xFF, 0x1001 := 0xFF)\<rparr>, \<lambda>_. 0))
      = Inr (0, 0xE8, 0xF8, 0xD0)"
  by (simp add: tile_addr_def render_px_def tile_fetch_def use_win_def win_y_ok_def PPU_init_def
     PPU_shade_def DMG_COLORS_def Let_def)

section \<open>The joypad register\<close>

text \<open>
  Claim C5 says that with the direction group selected and only Right held, a read of
  \<^verbatim>\<open>$FF00\<close> returns \<^verbatim>\<open>0xEE\<close> (bit 5 set). \<^verbatim>\<open>Joypad.read\<close> starts from \<^verbatim>\<open>0xCF\<close>, in which
  bits 4 and 5 are already clear, so its \<^verbatim>\<open>v &= ~0x10\<close> changes nothing and the read
  returns \<^verbatim>\<open>0xCE\<close>.
\<close>

theorem Joypad_read_direction_right:
  "Joypad_read (Joypad_init\<lparr>sel_dir := True, btn_right := True\<rparr>) = 0xCE"
  by (simp add: Joypad_read_def Joypad_init_def)

section \<open>F after every instruction\<close>

text \<open>
  Claim C9: after every \<^verbatim>\<open>CPU.step\<close> the low nibble of F is zero. The reset value
  \<^verbatim>\<open>0xB0\<close> has a zero low nibble, every step keeps it zero whatever the opcode fetched
  (CB-prefixed ones, POP AF, DAA, CPL, SCF and CCF included), on the halted path and on
  interrupt dispatch, and so it is zero after any number of steps from reset.
\<close>

theorem F_low_nibble_zero:
  "reg_f (CPU_init m) AND 0x0F = 0
   \<and> (reg_f s AND 0x0F = 0 \<longrightarrow> reg_f (CPU_step s) AND 0x0F = 0)
   \<and> reg_f ((CPU_step ^^ n) (CPU_init m)) AND 0x0F = 0"
proof -
  have init: "reg_f (CPU_init m) AND 0x0F = 0" by (simp add: CPU_init_def)
  have steps: "reg_f ((CPU_step ^^ n) (CPU_init m)) AND 0x0F = 0"
    by (induction n) (simp_all add: init step_low)
  show ?thesis using init steps step_low [of s] by simp
qed

theorem F_low_nibble_zero_witness:
  "reg_f (power_on [0x3C]) AND 0x0F = 0 \<and> reg_f (CPU_step (power_on [0x3C])) AND 0x0F = 0"
  using F_low_nibble_zero [of "MMU_init (Cartridge_init [0x3C]) PPU_init Timer_init Joypad_init"
      "power_on [0x3C]" 0]
  by (simp add: power_on_def)

section \<open>Every step advances the clock, so a frame ends\<close>

text \<open>
  \<open>run_loop_fuel n\<close> is the loop of \<^verbatim>\<open>run_frame\<close> cut off after \<open>n\<close> rounds: \<open>None\<close>
  when the loop condition still holds after them, otherwise what the loop returns
  (its state, or the exception of the PPU).
\<close>

fun run_loop_fuel :: "nat \<Rightarrow> int \<Rightarrow> cpu_state \<times> int \<Rightarrow> (error + cpu_state \<times> int) option" where
  "run_loop_fuel 0 target st = (if snd st < target then None else Some (Inr st))"
| "run_loop_fuel (Suc n) target st =
     (if snd st < target then
        (case frame_iter st of Inl e \<Rightarrow> Some (Inl e) | Inr st' \<Rightarrow> run_loop_fuel n target st')
      else Some (Inr st))"

lemma run_loop_fuel_enough:
  "target - snd st \<le> 4 * int n \<Longrightarrow> run_loop_fuel n target st = Some (run_loop target st)"
proof (induction n arbitrary: st)
  case 0
  then show ?case by simp
next
  case (Suc n)
  show ?case
  proof (cases "snd st < target")
    case False
    then show ?thesis by simp
  next
    case True
    show ?thesis
    proof (cases "frame_iter st")
      case (Inl e)
      then show ?thesis using True by simp
    next
      case (Inr st')
      then have "frame_iter (fst st, snd st) = Inr (fst st', snd st')" by simp
      from frame_iter_advance [OF this] Suc.prems
      have "target - snd st' \<le> 4 * int n" by simp
      from Suc.IH [OF this] Inr True show ?thesis by simp
    qed
  qed
qed

text \<open>
  Claim C10: every \<^verbatim>\<open>CPU.step\<close> adds at least 4 to the CPU's cycle counter (for every
  state: halted, dispatching, any opcode, an opcode without a branch), and the loop of
  \<^verbatim>\<open>run_frame\<close>, entered at any total \<open>t\<close> with target \<open>t + 70224\<close>, is over within
  17556 rounds: cut off there, it has returned what the loop (a total function, by the
  termination proof of \<open>run_loop\<close>) returns.
\<close>

theorem step_advances_and_frame_terminates:
  "cycles s + 4 \<le> cycles (CPU_step s)
   \<and> run_loop_fuel 17556 (t + CYCLES_PER_FRAME) (c, t) = Some (run_loop (t + CYCLES_PER_FRAME) (c, t))"
  using step_cost [of s] run_loop_fuel_enough [of "t + CYCLES_PER_FRAME" "(c, t)" 17556]
  by (simp add: CYCLES_PER_FRAME_def)

section \<open>Waking from HALT with IME clear\<close>

lemma halted_wake_no_ime:
  assumes "halted s" "\<not> ime s" "ime_pending s = 0" "IE (mmu s) = 0x01" "IF (mmu s) = 0x01"
  shows "CPU_step s = CPU_fetch_exec (s\<lparr>halted := False\<rparr>)"
  using assms by (simp add: CPU_step_def CPU_handle_interrupts_def Let_def)

lemma nop_exec:
  "MMU_rb (mmu s) (pc s) = 0
   \<Longrightarrow> CPU_fetch_exec s = s\<lparr>pc := (pc s + 1) AND 0xFFFF, cycles := cycles s + 4\<rparr>"
  by (simp add: CPU_fetch_exec_def CPU_fetch_def CPU_exec_def)

text \<open>
  A machine fresh from \<^verbatim>\<open>load\<close> of the given ROM bytes, then put at PC = 0 in the halted
  state with IE = IF = \<^verbatim>\<open>0x01\<close> (IME is 0 and no EI is pending after reset).
\<close>

definition halted_at :: "int list \<Rightarrow> cpu_state" where
  "halted_at data = (power_on data)\<lparr>mmu := (mmu (power_on data))\<lparr>IE := 0x01, IF := 0x01\<rparr>,
                                     pc := 0, halted := True\<rparr>"

text \<open>
  Claim C4, amended. With the CPU halted, IME = 0, no EI enable pending, IE = \<^verbatim>\<open>0x01\<close>
  and IF = \<^verbatim>\<open>0x01\<close>, the next \<^verbatim>\<open>CPU.step\<close> clears the halted flag and dispatches
  nothing; since the halted flag is clear when the step tests it, the same step goes
  on to fetch and execute the instruction at PC. So the step is the fetch-and-execute
  of that instruction from the un-halted state and costs its 4 to 24 T-cycles; when
  the instruction is NOP it costs exactly 4, and only the halted flag, PC and the
  cycle counter change (IME stays 0, nothing is pushed, no vector is taken).
\<close>

theorem halt_wake_without_ime:
  assumes "halted s" and "\<not> ime s" and "ime_pending s = 0"
    and "IE (mmu s) = 0x01" and "IF (mmu s) = 0x01"
  shows "CPU_step s = CPU_fetch_exec (s\<lparr>halted := False\<rparr>)
     \<and> cycles s + 4 \<le> cycles (CPU_step s) \<and> cycles (CPU_step s) \<le> cycles s + 24
     \<and> (MMU_rb (mmu s) (pc s) = 0x00 \<longrightarrow>
          CPU_step s = s\<lparr>halted := False, pc := (pc s + 1) AND 0xFFFF, cycles := cycles s + 4\<rparr>)"
proof -
  have st: "CPU_step s = CPU_fetch_exec (s\<lparr>halted := False\<rparr>)"
    using assms by (rule halted_wake_no_ime)
  have cost: "cycles s + 4 \<le> cycles (CPU_step s) \<and> cycles (CPU_step s) \<le> cycles s + 24"
    using fetch_exec_cost [of "s\<lparr>halted := False\<rparr>"] by (simp add: st)
  have nop: "MMU_rb (mmu s) (pc s) = 0x00 \<longrightarrow>
          CPU_step s = s\<lparr>halted := False, pc := (pc s + 1) AND 0xFFFF, cycles := cycles s + 4\<rparr>"
    using nop_exec [of "s\<lparr>halted := False\<rparr>"] by (simp add: st)
  show ?thesis using st cost nop by simp
qed

theorem halt_wake_without_ime_witness:
  "halted (halted_at [0x00]) \<and> \<not> ime (halted_at [0x00]) \<and> ime_pending (halted_at [0x00]) = 0
   \<and> IE (mmu (halted_at [0x00])) = 0x01 \<and> IF (mmu (halted_at [0x00])) = 0x01
   \<and> cycles (CPU_step (halted_at [0x00])) = cycles (halted_at [0x00]) + 4
   \<and> \<not> halted (CPU_step (halted_at [0x00])) \<and> \<not> ime (CPU_step (halted_at [0x00]))
   \<and> pc (CPU_step (halted_at [0x00])) = 1 \<and> sp (CPU_step (halted_at [0x00])) = 0xFFFE"
proof -
  have h: "halted (halted_at [0x00])" "\<not> ime (halted_at [0x00])" "ime_pending (halted_at [0x00]) = 0"
    "IE (mmu (halted_at [0x00])) = 0x01" "IF (mmu (halted_at [0x00])) = 0x01"
    by (simp_all add: halted_at_def power_on_def CPU_init_def)
  have rd: "MMU_rb (mmu (halted_at [0x00])) (pc (halted_at [0x00])) = 0x00"
    by (simp add: halted_at_def power_on_def CPU_init_def MMU_init_def Cartridge_init_def
          MMU_rb_def Cartridge_read_def)
  from halt_wake_without_ime [OF h] rd
  have "CPU_step (halted_at [0x00]) = (halted_at [0x00])\<lparr>halted := False,
          pc := (pc (halted_at [0x00]) + 1) AND 0xFFFF, cycles := cycles (halted_at [0x00]) + 4\<rparr>"
    by blast
  then show ?thesis using h by (simp add: halted_at_def power_on_def CPU_init_def)
qed

text \<open>
  Claim C4 as stated (the step costs exactly 4 T-cycles) fails when the instruction after
  the HALT is not a 4-cycle one: with \<^verbatim>\<open>LD BC,0x1234\<close> at PC the step costs 12.
\<close>

theorem halt_wake_cost_counterexample:
  "halted (halted_at [0x01, 0x34, 0x12]) \<and> \<not> ime (halted_at [0x01, 0x34, 0x12])
   \<and> ime_pending (halted_at [0x01, 0x34, 0x12]) = 0
   \<and> IE (mmu (halted_at [0x01, 0x34, 0x12])) = 0x01 \<and> IF (mmu (halted_at [0x01, 0x34, 0x12])) = 0x01
   \<and> cycles (CPU_step (halted_at [0x01, 0x34, 0x12])) = cycles (halted_at [0x01, 0x34, 0x12]) + 12"
  by (simp add: halted_at_def eval_defs)

section \<open>Interrupt dispatch\<close>

lemma low5_zero:
  "(x::int) AND 1 = 0 \<Longrightarrow> x AND 2 = 0 \<Longrightarrow> x AND 4 = 0 \<Longrightarrow> x AND 8 = 0 \<Longrightarrow> x AND 16 = 0
   \<Longrightarrow> x AND 31 = 0"
proof -
  assume a: "x AND 1 = 0" "x AND 2 = 0" "x AND 4 = 0" "x AND 8 = 0" "x AND 16 = 0"
  have "(31::int) = 1 OR 2 OR 4 OR 8 OR 16" by simp
  then have "x AND 31 = x AND (1 OR 2 OR 4 OR 8 OR 16)" by simp
  also have "\<dots> = 0" using a by (simp only: bit.conj_disj_distrib) simp
  finally show ?thesis .
qed

lemma fired_masked: "(x::int) AND y AND 31 \<noteq> 0 \<Longrightarrow>
   (x AND y AND 31) AND 1 \<noteq> 0 \<or> (x AND y AND 31) AND 2 \<noteq> 0 \<or> (x AND y AND 31) AND 4 \<noteq> 0
   \<or> (x AND y AND 31) AND 8 \<noteq> 0 \<or> (x AND y AND 31) AND 16 \<noteq> 0"
proof (rule ccontr)
  assume nz: "x AND y AND 31 \<noteq> 0"
  assume "\<not> ((x AND y AND 31) AND 1 \<noteq> 0 \<or> (x AND y AND 31) AND 2 \<noteq> 0 \<or> (x AND y AND 31) AND 4 \<noteq> 0
   \<or> (x AND y AND 31) AND 8 \<noteq> 0 \<or> (x AND y AND 31) AND 16 \<noteq> 0)"
  then have "(x AND y AND 31) AND 31 = 0" by (intro low5_zero) simp_all
  then show False using nz by (simp add: and.assoc)
qed

lemma unhalt: "(if halted s then s\<lparr>halted := False\<rparr> else s) = s\<lparr>halted := False\<rparr>"
  by simp

text \<open>
  The state after the interrupt of bit \<open>b\<close> is served from \<open>s\<close>: halt and IME cleared,
  bit \<open>b\<close> cleared in IF, then PC pushed, then PC at the vector \<^verbatim>\<open>0x40 + 8*b\<close> and 20
  T-cycles charged.
\<close>

definition serve :: "cpu_state \<Rightarrow> nat \<Rightarrow> cpu_state" where
  "serve s b =
     (CPU_push (s\<lparr>mmu := (mmu s)\<lparr>IF := IF (mmu s) AND NOT (push_bit b 1)\<rparr>,
                   halted := False, ime := False\<rparr>) (pc s))
       \<lparr>pc := 0x40 + 8 * int b, cycles := cycles s + 20\<rparr>"

lemma handle_interrupts_serves:
  assumes "ime s" and nz: "IE (mmu s) AND IF (mmu s) AND 0x1F \<noteq> 0"
  shows "\<exists>b<5. (IE (mmu s) AND IF (mmu s) AND 0x1F) AND push_bit b 1 \<noteq> 0
     \<and> (\<forall>j<b. (IE (mmu s) AND IF (mmu s) AND 0x1F) AND push_bit j 1 = 0)
     \<and> CPU_handle_interrupts s = serve s b"
proof -
  let ?f = "IE (mmu s) AND IF (mmu s) AND 0x1F"
  have hi: "CPU_handle_interrupts s =
      CPU_dispatch (s\<lparr>halted := False, ime := False\<rparr>) ?f [(0, 0x40), (1, 0x48), (2, 0x50), (3, 0x58), (4, 0x60)]"
    using assms by (simp add: CPU_handle_interrupts_def Let_def unhalt del: CPU_dispatch.simps)
  consider (b0) "?f AND 1 \<noteq> 0"
    | (b1) "?f AND 1 = 0" "?f AND 2 \<noteq> 0"
    | (b2) "?f AND 1 = 0" "?f AND 2 = 0" "?f AND 4 \<noteq> 0"
    | (b3) "?f AND 1 = 0" "?f AND 2 = 0" "?f AND 4 = 0" "?f AND 8 \<noteq> 0"
    | (b4) "?f AND 1 = 0" "?f AND 2 = 0" "?f AND 4 = 0" "?f AND 8 = 0" "?f AND 16 \<noteq> 0"
    using fired_masked [OF nz] by blast
  then show ?thesis
  proof cases
    case b0
    then have "CPU_handle_interrupts s = serve s 0"
      by (simp add: hi serve_def Let_def CPU_push_def)
    then show ?thesis using b0 by (intro exI [of _ 0]) simp
  next
    case b1
    then have "CPU_handle_interrupts s = serve s 1"
      by (simp add: hi serve_def Let_def CPU_push_def)
    then show ?thesis using b1 by (intro exI [of _ 1]) simp
  next
    case b2
    then have "CPU_handle_interrupts s = serve s 2"
      by (simp add: hi serve_def Let_def CPU_push_def)
    then show ?thesis using b2 by (intro exI [of _ 2]) (simp add: less_Suc_eq numeral_2_eq_2)
  next
    case b3
    then have "CPU_handle_interrupts s = serve s 3"
      by (simp add: hi serve_def Let_def CPU_push_def)
    then show ?thesis using b3 by (intro exI [of _ 3]) (simp add: less_Suc_eq numeral_3_eq_3)
  next
    case b4
    then have "CPU_handle_interrupts s = serve s 4"
      by (simp add: hi serve_def Let_def CPU_push_def)
    then show ?thesis using b4
      by (intro exI [of _ 4]) (simp add: less_Suc_eq eval_nat_numeral)
  qed
qed

lemma and_FFFF: "(x::int) AND 0xFFFF = x mod 65536"
proof -
  have "(0xFFFF::int) = mask 16" by (simp add: mask_eq_exp_minus_1)
  then have "x AND 0xFFFF = take_bit 16 x" by (simp only: take_bit_eq_mask)
  then show ?thesis by (simp add: take_bit_eq_mod)
qed

lemma dma_IF: "IF (fold (dma_copy src) l m) = IF m"
  by (induction l arbitrary: m) (simp_all add: dma_copy_def)

lemma wb_IF: "a AND 0xFFFF \<noteq> 0xFF0F \<Longrightarrow> IF (MMU_wb m a v) = IF m"
  by (simp add: MMU_wb_def Let_def dma_IF)

lemma ww_IF:
  "a AND 0xFFFF \<noteq> 0xFF0F \<Longrightarrow> (a + 1) AND 0xFFFF \<noteq> 0xFF0F \<Longrightarrow> IF (MMU_ww m a v) = IF m"
  by (simp add: MMU_ww_def wb_IF and.assoc)

text \<open>
  A machine fresh from \<^verbatim>\<open>load\<close> (PC = \<^verbatim>\<open>0x0100\<close>), with IE = IF = \<^verbatim>\<open>0x03\<close>, IME set and the
  stack pointer given.
\<close>

definition irq_state :: "int \<Rightarrow> cpu_state" where
  "irq_state stack = (power_on [])\<lparr>mmu := (mmu (power_on []))\<lparr>IE := 0x03, IF := 0x03\<rparr>,
                                     sp := stack, ime := True\<rparr>"

text \<open>
  Claim C7, amended. When \<^verbatim>\<open>IE & IF & 0x1F\<close> is nonzero and IME is set,
  \<^verbatim>\<open>handle_interrupts\<close> serves the lowest-numbered pending bit \<open>b\<close>: it clears IME (and
  the halted flag), clears bit \<open>b\<close> alone in IF, pushes PC through the bus (SP goes down
  by 2 modulo \<^verbatim>\<open>0x10000\<close>), sets PC to the vector \<^verbatim>\<open>0x40 + 8*b\<close> and charges 20
  T-cycles. IF ends as the old IF without bit \<open>b\<close> provided the push does not itself
  store to \<^verbatim>\<open>$FF0F\<close>, that is, neither SP-2 nor SP-1 is \<^verbatim>\<open>0xFF0F\<close>. With IE = IF = \<^verbatim>\<open>0x03\<close>
  and the reset stack pointer, control goes to \<^verbatim>\<open>$40\<close> and IF becomes \<^verbatim>\<open>0x02\<close> (the witness).
\<close>

theorem interrupt_dispatch:
  assumes "ime s" and "IE (mmu s) AND IF (mmu s) AND 0x1F \<noteq> 0"
  shows "\<exists>b<5. (IE (mmu s) AND IF (mmu s) AND 0x1F) AND push_bit b 1 \<noteq> 0
     \<and> (\<forall>j<b. (IE (mmu s) AND IF (mmu s) AND 0x1F) AND push_bit j 1 = 0)
     \<and> CPU_handle_interrupts s = serve s b
     \<and> pc (CPU_handle_interrupts s) = 0x40 + 8 * int b
     \<and> cycles (CPU_handle_interrupts s) = cycles s + 20
     \<and> \<not> ime (CPU_handle_interrupts s)
     \<and> sp (CPU_handle_interrupts s) = (sp s - 2) AND 0xFFFF
     \<and> mmu (CPU_handle_interrupts s) =
           MMU_ww ((mmu s)\<lparr>IF := IF (mmu s) AND NOT (push_bit b 1)\<rparr>) ((sp s - 2) AND 0xFFFF) (pc s)
     \<and> ((sp s - 2) AND 0xFFFF \<noteq> 0xFF0F \<and> (sp s - 1) AND 0xFFFF \<noteq> 0xFF0F \<longrightarrow>
           IF (mmu (CPU_handle_interrupts s)) = IF (mmu s) AND NOT (push_bit b 1))"
proof -
  from handle_interrupts_serves [OF assms] obtain b where b: "b < 5"
    "(IE (mmu s) AND IF (mmu s) AND 0x1F) AND push_bit b 1 \<noteq> 0"
    "\<forall>j<b. (IE (mmu s) AND IF (mmu s) AND 0x1F) AND push_bit j 1 = 0"
    "CPU_handle_interrupts s = serve s b" by blast
  have wrap: "((sp s - 2) AND 0xFFFF) + 1 AND 0xFFFF = (sp s - 1) AND 0xFFFF"
  proof -
    have "((sp s - 2) mod 65536 + 1) mod 65536 = (sp s - 1) mod 65536"
      by (simp add: mod_simps)
    then show ?thesis by (simp add: and_FFFF)
  qed
  have fields: "pc (serve s b) = 0x40 + 8 * int b" "cycles (serve s b) = cycles s + 20"
    "\<not> ime (serve s b)" "sp (serve s b) = (sp s - 2) AND 0xFFFF"
    "mmu (serve s b) =
       MMU_ww ((mmu s)\<lparr>IF := IF (mmu s) AND NOT (push_bit b 1)\<rparr>) ((sp s - 2) AND 0xFFFF) (pc s)"
    by (simp_all add: serve_def CPU_push_def Let_def)
  have "(sp s - 2) AND 0xFFFF \<noteq> 0xFF0F \<and> (sp s - 1) AND 0xFFFF \<noteq> 0xFF0F \<longrightarrow>
           IF (mmu (serve s b)) = IF (mmu s) AND NOT (push_bit b 1)"
    using wrap by (simp add: fields ww_IF and.assoc)
  with b fields show ?thesis by (intro exI [of _ b]) simp
qed

theorem interrupt_dispatch_witness:
  "ime (irq_state 0xFFFE)
   \<and> IE (mmu (irq_state 0xFFFE)) AND IF (mmu (irq_state 0xFFFE)) AND 0x1F \<noteq> 0
   \<and> pc (CPU_handle_interrupts (irq_state 0xFFFE)) = 0x40
   \<and> IF (mmu (CPU_handle_interrupts (irq_state 0xFFFE))) = 0x02
   \<and> sp (CPU_handle_interrupts (irq_state 0xFFFE)) = 0xFFFC
   \<and> cycles (CPU_handle_interrupts (irq_state 0xFFFE)) = 20
   \<and> \<not> ime (CPU_handle_interrupts (irq_state 0xFFFE))"
proof -
  let ?s = "irq_state 0xFFFE"
  have h1: "ime ?s" by (simp add: irq_state_def)
  have h2: "IE (mmu ?s) AND IF (mmu ?s) AND 0x1F \<noteq> 0" by (simp add: irq_state_def)
  have f: "IE (mmu ?s) AND IF (mmu ?s) AND 0x1F = 3" "IF (mmu ?s) = 3" "sp ?s = 0xFFFE"
    "cycles ?s = 0"
    by (simp_all add: irq_state_def power_on_def CPU_init_def)
  from interrupt_dispatch [OF h1 h2] obtain b where b:
    "\<forall>j<b. (IE (mmu ?s) AND IF (mmu ?s) AND 0x1F) AND push_bit j 1 = 0"
    "pc (CPU_handle_interrupts ?s) = 0x40 + 8 * int b"
    "cycles (CPU_handle_interrupts ?s) = cycles ?s + 20"
    "\<not> ime (CPU_handle_interrupts ?s)"
    "sp (CPU_handle_interrupts ?s) = (sp ?s - 2) AND 0xFFFF"
    "(sp ?s - 2) AND 0xFFFF \<noteq> 0xFF0F \<and> (sp ?s - 1) AND 0xFFFF \<noteq> 0xFF0F \<longrightarrow>
       IF (mmu (CPU_handle_interrupts ?s)) = IF (mmu ?s) AND NOT (push_bit b 1)"
    by blast
  have "b = 0"
  proof (rule ccontr)
    assume "b \<noteq> 0"
    then have "0 < b" by simp
    with b(1) have "(IE (mmu ?s) AND IF (mmu ?s) AND 0x1F) AND push_bit 0 1 = 0" by blast
    then show False by (simp only: f(1)) simp
  qed
  with b h1 h2 show ?thesis by (simp add: f(2-))
qed

text \<open>
  Claim C7 as stated (IF becomes \<^verbatim>\<open>0x02\<close> whenever IE = IF = \<^verbatim>\<open>0x03\<close> and IME = 1) fails when
  the stack pointer is \<^verbatim>\<open>0xFF11\<close>: the push of PC = \<^verbatim>\<open>0x0100\<close> stores its low byte at
  \<^verbatim>\<open>$FF0F\<close>, and IF ends as \<^verbatim>\<open>0x00\<close>.
\<close>

theorem interrupt_dispatch_IF_counterexample:
  "ime (irq_state 0xFF11) \<and> IE (mmu (irq_state 0xFF11)) = 0x03 \<and> IF (mmu (irq_state 0xFF11)) = 0x03
   \<and> pc (CPU_handle_interrupts (irq_state 0xFF11)) = 0x40
   \<and> IF (mmu (CPU_handle_interrupts (irq_state 0xFF11))) = 0x00"
  by (simp add: irq_state_def eval_defs MMU_wb_def MMU_ww_def)

section \<open>The timer and the falling edges of DIV\<close>

text \<open>
  The spec's side of claim C3. \<open>div_bit b d\<close> is bit \<open>b\<close> of DIV, read as \<^verbatim>\<open>Timer.step\<close>
  reads it. \<open>falling_edges b d n\<close> counts the 1-to-0 transitions of that bit while the
  16-bit counter advances from \<open>d\<close> by \<open>n\<close> single T-cycles. \<open>Timer_steps\<close> is a
  sequence of calls of \<^verbatim>\<open>Timer.step\<close>.
\<close>

definition div_bit :: "nat \<Rightarrow> int \<Rightarrow> bool" where
  "div_bit b d = (drop_bit b d AND 1 \<noteq> 0)"

fun falling_edges :: "nat \<Rightarrow> int \<Rightarrow> nat \<Rightarrow> nat" where
  "falling_edges b d 0 = 0"
| "falling_edges b d (Suc n) =
     falling_edges b d n
     + (if div_bit b ((d + int n) AND 0xFFFF) \<and> \<not> div_bit b ((d + int n + 1) AND 0xFFFF)
        then 1 else 0)"

fun Timer_steps :: "timer_state \<Rightarrow> int list \<Rightarrow> timer_state" where
  "Timer_steps t [] = t"
| "Timer_steps t (c # cs) = Timer_steps (snd (Timer_step t c)) cs"

lemma div_bit_bit: "div_bit b d = bit d b"
  by (simp add: div_bit_def bit_iff_odd_drop_bit and_one_eq odd_iff_mod_2_eq_one)

lemma div_bit_mask: "b < 16 \<Longrightarrow> div_bit b (d AND 0xFFFF) = div_bit b d"
proof -
  assume b: "b < 16"
  have "(0xFFFF::int) = mask 16" by (simp add: mask_eq_exp_minus_1)
  then have "bit (d AND 0xFFFF) b = bit (d AND mask 16) b" by simp
  also have "\<dots> = bit d b" using b by (simp add: bit_and_iff bit_mask_iff)
  finally show ?thesis by (simp add: div_bit_bit)
qed

lemma div_mod_decomp:
  fixes P :: int
  assumes "0 < P" and "a = P * q + r" and "0 \<le> r" and "r < P"
  shows "a div P = q" and "a mod P = r"
  using assms by (auto intro: int_div_pos_eq int_mod_pos_eq)

lemma bit_half:
  fixes x :: int
  shows "bit x b \<longleftrightarrow> 2 ^ b \<le> x mod (2 * 2 ^ b)"
proof -
  define H :: int where "H = 2 ^ b"
  have H: "0 < H" by (simp add: H_def)
  define q where "q = x div H"
  define r where "r = x mod H"
  have r: "0 \<le> r" "r < H" using H by (simp_all add: r_def)
  have x: "x = H * q + r" by (simp add: q_def r_def)
  define e where "e = q mod 2"
  have e: "e = 0 \<or> e = 1" unfolding e_def by presburger
  have q: "q = 2 * (q div 2) + e" by (simp add: e_def)
  have "x = (2 * H) * (q div 2) + (H * e + r)"
  proof -
    have "x = H * (2 * (q div 2) + e) + r" using x q by simp
    then show ?thesis by (simp add: algebra_simps)
  qed
  moreover have "0 \<le> H * e + r" "H * e + r < 2 * H" using e r H by auto
  ultimately have m: "x mod (2 * H) = H * e + r"
    using H by (intro div_mod_decomp(2) [where q = "q div 2"]) simp_all
  have "bit x b \<longleftrightarrow> odd q" by (simp add: bit_iff_odd q_def H_def)
  also have "\<dots> \<longleftrightarrow> e = 1" unfolding e_def by presburger
  also have "\<dots> \<longleftrightarrow> H \<le> x mod (2 * H)" using e r H by (auto simp add: m)
  finally show ?thesis by (simp add: H_def)
qed

lemma div_succ:
  fixes P :: int
  assumes P: "0 < P"
  shows "(y + 1) div P = y div P + (if (y + 1) mod P = 0 then 1 else 0)"
proof -
  define q where "q = y div P"
  define r where "r = y mod P"
  have r: "0 \<le> r" "r < P" using P by (simp_all add: r_def)
  have y: "y = P * q + r" by (simp add: q_def r_def)
  show ?thesis
  proof (cases "r + 1 < P")
    case True
    have d: "y + 1 = P * q + (r + 1)" using y by simp
    have "(y + 1) div P = q" "(y + 1) mod P = r + 1"
      using div_mod_decomp [OF P d] r True by simp_all
    then show ?thesis using r by (simp add: q_def)
  next
    case False
    then have rp: "r = P - 1" using r by simp
    have d: "y + 1 = P * (q + 1) + 0" using y rp by (simp add: algebra_simps)
    have "(y + 1) div P = q + 1" "(y + 1) mod P = 0"
      using div_mod_decomp [OF P d] P by simp_all
    then show ?thesis by (simp add: q_def)
  qed
qed

lemma edge_tick:
  fixes H :: int
  assumes H: "0 < H"
  shows "(H \<le> y mod (2 * H) \<and> \<not> H \<le> (y + 1) mod (2 * H)) \<longleftrightarrow> (y + 1) mod (2 * H) = 0"
proof -
  define q where "q = y div (2 * H)"
  define r where "r = y mod (2 * H)"
  have P: "0 < 2 * H" using H by simp
  have r: "0 \<le> r" "r < 2 * H" using H by (simp_all add: r_def)
  have y: "y = (2 * H) * q + r" by (simp add: q_def r_def)
  show ?thesis
  proof (cases "r + 1 < 2 * H")
    case True
    have d: "y + 1 = (2 * H) * q + (r + 1)" using y by simp
    have "(y + 1) mod (2 * H) = r + 1"
      using div_mod_decomp(2) [OF P d] r True by simp
    then show ?thesis using r by (auto simp add: r_def [symmetric])
  next
    case False
    then have rp: "r = 2 * H - 1" using r by simp
    have d: "y + 1 = (2 * H) * (q + 1) + 0" using y rp by (simp add: algebra_simps)
    have "(y + 1) mod (2 * H) = 0"
      using div_mod_decomp(2) [OF P d] P by simp
    then show ?thesis using rp H by (simp add: r_def [symmetric])
  qed
qed

lemma edge_step:
  fixes H :: int
  assumes H: "0 < H" and c: "0 < c" "c \<le> H"
  shows "(d + c) div (2 * H) - d div (2 * H)
         = (if H \<le> d mod (2 * H) \<and> \<not> H \<le> (d + c) mod (2 * H) then 1 else 0)"
proof -
  define q where "q = d div (2 * H)"
  define r where "r = d mod (2 * H)"
  have P: "0 < 2 * H" using H by simp
  have r: "0 \<le> r" "r < 2 * H" using H by (simp_all add: r_def)
  have y: "d = (2 * H) * q + r" by (simp add: q_def r_def)
  show ?thesis
  proof (cases "r + c < 2 * H")
    case True
    have e: "d + c = (2 * H) * q + (r + c)" using y by simp
    have "(d + c) div (2 * H) = q" "(d + c) mod (2 * H) = r + c"
      using div_mod_decomp [OF P e] r c True by simp_all
    then show ?thesis using c by (simp add: q_def [symmetric] r_def [symmetric])
  next
    case False
    have e: "d + c = (2 * H) * (q + 1) + (r + c - 2 * H)" using y by (simp add: algebra_simps)
    have "(d + c) div (2 * H) = q + 1" "(d + c) mod (2 * H) = r + c - 2 * H"
      using div_mod_decomp [OF P e] r c False by simp_all
    then show ?thesis using c r False by (simp add: q_def [symmetric] r_def [symmetric])
  qed
qed

lemma div_bit_half: "div_bit b d \<longleftrightarrow> 2 ^ b \<le> d mod (2 * 2 ^ b)"
  by (simp add: div_bit_bit bit_half)

lemma falling_edges_closed:
  assumes b: "b < 16"
  shows "int (falling_edges b d n) = (d + int n) div (2 * 2 ^ b) - d div (2 * 2 ^ b)"
proof (induction n)
  case 0
  then show ?case by simp
next
  case (Suc n)
  have H: "(0::int) < 2 ^ b" by simp
  have P: "(0::int) < 2 * 2 ^ b" by simp
  have tick: "(div_bit b ((d + int n) AND 0xFFFF) \<and> \<not> div_bit b ((d + int n + 1) AND 0xFFFF))
      \<longleftrightarrow> (d + int n + 1) mod (2 * 2 ^ b) = 0"
    unfolding div_bit_mask [OF b] using edge_tick [OF H, of "d + int n"] by (simp add: div_bit_half)
  have s: "d + int (Suc n) = d + int n + 1" by simp
  have "int (falling_edges b d (Suc n))
        = int (falling_edges b d n) + (if (d + int n + 1) mod (2 * 2 ^ b) = 0 then 1 else 0)"
    using tick by simp
  also have "\<dots> = (d + int n) div (2 * 2 ^ b) - d div (2 * 2 ^ b)
                   + (if (d + int n + 1) mod (2 * 2 ^ b) = 0 then 1 else 0)"
    using Suc.IH by simp
  also have "\<dots> = (d + int n + 1) div (2 * 2 ^ b) - d div (2 * 2 ^ b)"
    using div_succ [OF P, of "d + int n"] by simp
  finally show ?case by (simp only: s)
qed

lemma BITS_less: "BITS k < 16"
  by (simp add: BITS_def)

lemma Timer_step_tima:
  "tima (snd (Timer_step t c)) =
     (let base = (if ovf t \<and> ovf_d t - c \<le> 0 then tma t else tima t)
      in if tac t AND 4 \<noteq> 0 \<and> div_bit (BITS (tac t AND 3)) (div_ctr t)
            \<and> \<not> div_bit (BITS (tac t AND 3)) ((div_ctr t + c) AND 0xFFFF)
         then (base + 1) AND 0xFF else base)"
  by (simp add: Timer_step_def Let_def div_bit_def split_def)

lemma falling_edges_step:
  assumes b: "b < 16" and c: "0 < c" "c \<le> 2 ^ b"
  shows "int (falling_edges b d (nat c))
         = (if div_bit b d \<and> \<not> div_bit b ((d + c) AND 0xFFFF) then 1 else 0)"
proof -
  have H: "(0::int) < 2 ^ b" by simp
  have "int (falling_edges b d (nat c)) = (d + c) div (2 * 2 ^ b) - d div (2 * 2 ^ b)"
    using falling_edges_closed [OF b, of d "nat c"] c by simp
  also have "\<dots> = (if 2 ^ b \<le> d mod (2 * 2 ^ b) \<and> \<not> 2 ^ b \<le> (d + c) mod (2 * 2 ^ b) then 1 else 0)"
    using edge_step [OF H c] by simp
  finally show ?thesis unfolding div_bit_mask [OF b] by (simp add: div_bit_half)
qed

lemma Timer_step_single:
  assumes en: "tac t AND 4 \<noteq> 0" and c: "0 < c" "c \<le> 2 ^ BITS (tac t AND 3)"
  shows "falling_edges (BITS (tac t AND 3)) (div_ctr t) (nat c) \<le> 1
     \<and> tima (snd (Timer_step t c)) =
         (let base = (if ovf t \<and> ovf_d t - c \<le> 0 then tma t else tima t)
          in if falling_edges (BITS (tac t AND 3)) (div_ctr t) (nat c) = 0 then base
             else (base + 1) AND 0xFF)"
proof -
  let ?b = "BITS (tac t AND 3)"
  have fe: "int (falling_edges ?b (div_ctr t) (nat c))
         = (if div_bit ?b (div_ctr t) \<and> \<not> div_bit ?b ((div_ctr t + c) AND 0xFFFF) then 1 else 0)"
    using falling_edges_step [OF BITS_less c] .
  show ?thesis
  proof (cases "div_bit ?b (div_ctr t) \<and> \<not> div_bit ?b ((div_ctr t + c) AND 0xFFFF)")
    case True
    with fe have "falling_edges ?b (div_ctr t) (nat c) = 1" by simp
    then show ?thesis using True en by (auto simp add: Timer_step_tima Let_def)
  next
    case False
    with fe have "falling_edges ?b (div_ctr t) (nat c) = 0" by simp
    then show ?thesis using False en by (auto simp add: Timer_step_tima Let_def)
  qed
qed

lemma and_FF: "(x::int) AND 0xFF = x mod 256"
proof -
  have "(0xFF::int) = mask 8" by (simp add: mask_eq_exp_minus_1)
  then have "x AND 0xFF = take_bit 8 x" by (simp only: take_bit_eq_mask)
  then show ?thesis by (simp add: take_bit_eq_mod)
qed

lemma wrap_div:
  fixes x :: int
  assumes b: "b < 16"
  shows "(x mod 65536 + S) div (2 * 2 ^ b) - (x mod 65536) div (2 * 2 ^ b)
         = (x + S) div (2 * 2 ^ b) - x div (2 * 2 ^ b)"
proof -
  define P :: int where "P = 2 * 2 ^ b"
  define K :: int where "K = 2 ^ (15 - b)"
  have P: "P \<noteq> 0" by (simp add: P_def)
  have "P * K = 2 ^ (Suc b + (15 - b))" unfolding P_def K_def by (simp add: power_add)
  also have "Suc b + (15 - b) = 16" using b by simp
  finally have PK: "P * K = 65536" by simp
  define k where "k = x div 65536"
  define x' where "x' = x mod 65536"
  have x: "x = x' + P * (K * k)"
    using PK by (simp add: k_def x'_def flip: mult.assoc)
  have xs: "x + S = (x' + S) + P * (K * k)" using x by simp
  have "(x + S) div P = ((x' + S) + P * (K * k)) div P" by (simp only: xs)
  also have "\<dots> = (x' + S) div P + K * k" using P by simp
  finally have 1: "(x + S) div P = (x' + S) div P + K * k" .
  have "x div P = (x' + P * (K * k)) div P" by (rule arg_cong [where f = "\<lambda>z. z div P", OF x])
  also have "\<dots> = x' div P + K * k" using P by simp
  finally have 2: "x div P = x' div P + K * k" .
  show ?thesis using 1 2 by (simp add: P_def x'_def)
qed

lemma falling_edges_split:
  assumes b: "b < 16" and c: "0 \<le> c" and S: "0 \<le> S"
  shows "int (falling_edges b d (nat (c + S)))
         = int (falling_edges b d (nat c)) + int (falling_edges b ((d + c) AND 0xFFFF) (nat S))"
  using c S wrap_div [OF b, of "d + c" S]
  by (simp add: falling_edges_closed [OF b] and_FFFF add.assoc)

lemma Timer_step_frame:
  "tac (snd (Timer_step t c)) = tac t"
  "div_ctr (snd (Timer_step t c)) = (div_ctr t + c) AND 0xFFFF"
  by (simp_all add: Timer_step_def Let_def split_def)

lemma Timer_step_ovf:
  "\<not> ovf t \<Longrightarrow> ovf (snd (Timer_step t c)) \<Longrightarrow> tima (snd (Timer_step t c)) = 0"
  by (simp add: Timer_step_def Let_def split_def split: if_splits)

lemma sum_list_nonneg: "\<forall>c\<in>set cs. (0::int) < c \<Longrightarrow> 0 \<le> sum_list cs"
  by (induction cs) auto

lemma Timer_steps_tima:
  assumes "tac t AND 4 \<noteq> 0" and "\<not> ovf t" and "0 \<le> tima t"
    and "\<forall>c\<in>set cs. 0 < c \<and> c \<le> 2 ^ BITS (tac t AND 3)"
    and "tima t + int (falling_edges (BITS (tac t AND 3)) (div_ctr t) (nat (sum_list cs))) \<le> 0xFF"
  shows "tima (Timer_steps t cs)
         = tima t + int (falling_edges (BITS (tac t AND 3)) (div_ctr t) (nat (sum_list cs)))"
  using assms
proof (induction cs arbitrary: t)
  case Nil
  then show ?case by simp
next
  case (Cons c cs)
  let ?b = "BITS (tac t AND 3)"
  let ?t = "snd (Timer_step t c)"
  have c: "0 < c" "c \<le> 2 ^ ?b" using Cons.prems(4) by simp_all
  have S: "0 \<le> sum_list cs" using Cons.prems(4) by (intro sum_list_nonneg) simp
  have split: "int (falling_edges ?b (div_ctr t) (nat (sum_list (c # cs))))
      = int (falling_edges ?b (div_ctr t) (nat c)) + int (falling_edges ?b (div_ctr ?t) (nat (sum_list cs)))"
    using falling_edges_split [OF BITS_less, of c "sum_list cs" "tac t AND 3" "div_ctr t"] c S
    by (simp add: Timer_step_frame)
  from Timer_step_single [OF Cons.prems(1) c]
  have e1: "falling_edges ?b (div_ctr t) (nat c) \<le> 1"
    and t1: "tima ?t = (if falling_edges ?b (div_ctr t) (nat c) = 0 then tima t else (tima t + 1) AND 0xFF)"
    using Cons.prems(2) by (simp_all add: Let_def)
  have bound: "tima t + int (falling_edges ?b (div_ctr t) (nat c)) \<le> 0xFF"
    using Cons.prems(5) split by simp
  have tima1: "tima ?t = tima t + int (falling_edges ?b (div_ctr t) (nat c))"
  proof (cases "falling_edges ?b (div_ctr t) (nat c) = 0")
    case True
    then show ?thesis using t1 by simp
  next
    case False
    with e1 have one: "falling_edges ?b (div_ctr t) (nat c) = 1" by simp
    with bound Cons.prems(3) have "(tima t + 1) AND 0xFF = tima t + 1" by (simp add: and_FF)
    then show ?thesis using t1 one by simp
  qed
  have novf: "\<not> ovf ?t"
  proof
    assume "ovf ?t"
    from Timer_step_ovf [OF Cons.prems(2) this] have z: "tima ?t = 0" .
    with tima1 Cons.prems(3) have "falling_edges ?b (div_ctr t) (nat c) = 0" "tima t = 0" by simp_all
    then have "snd (Timer_step t c) = t\<lparr>div_ctr := (div_ctr t + c) AND 0xFFFF\<rparr>"
      using Cons.prems(1,2) c falling_edges_step [OF BITS_less c, of "div_ctr t"]
      by (auto simp add: Timer_step_def Let_def div_bit_def split: if_splits)
    then have "ovf ?t = ovf t" by simp
    with \<open>ovf ?t\<close> Cons.prems(2) show False by simp
  qed
  have IH: "tima (Timer_steps ?t cs)
         = tima ?t + int (falling_edges (BITS (tac ?t AND 3)) (div_ctr ?t) (nat (sum_list cs)))"
  proof (rule Cons.IH)
    show "tac ?t AND 4 \<noteq> 0" using Cons.prems(1) by (simp add: Timer_step_frame)
    show "\<not> ovf ?t" by (rule novf)
    show "0 \<le> tima ?t" using tima1 Cons.prems(3) by simp
    show "\<forall>c\<in>set cs. 0 < c \<and> c \<le> 2 ^ BITS (tac ?t AND 3)"
      using Cons.prems(4) by (simp add: Timer_step_frame)
    show "tima ?t + int (falling_edges (BITS (tac ?t AND 3)) (div_ctr ?t) (nat (sum_list cs))) \<le> 0xFF"
      using Cons.prems(5) split tima1 by (simp add: Timer_step_frame(1))
  qed
  show ?case using IH tima1 split by (simp add: Timer_step_frame(1))
qed

lemma falling_edges_period: "b < 16 \<Longrightarrow> falling_edges b d (2 * 2 ^ b * k) = k"
proof -
  assume b: "b < 16"
  have "int (falling_edges b d (2 * 2 ^ b * k)) = (d + (2 * 2 ^ b) * int k) div (2 * 2 ^ b) - d div (2 * 2 ^ b)"
    using falling_edges_closed [OF b, of d "2 * 2 ^ b * k"] by simp
  also have "\<dots> = int k" by simp
  finally show ?thesis by simp
qed

text \<open>
  The timer with TAC = \<^verbatim>\<open>0x05\<close> (enabled, bit-3 tap), TIMA = 0, no overflow pending, and
  the given DIV.
\<close>

definition tap3_timer :: "int \<Rightarrow> timer_state" where
  "tap3_timer d = Timer_init\<lparr>div_ctr := d, tac := 0x05\<rparr>"

text \<open>
  Claim C3 says that TIMA is incremented once for each falling edge of the selected DIV
  bit that occurs while DIV advances by \<open>c\<close>, however the cycles are split across calls.
  \<^verbatim>\<open>Timer.step(c)\<close> looks for the falling edge by comparing the selected bit before and
  after the whole step, and \<^verbatim>\<open>run_frame\<close> calls it with the cost of a CPU step, 4 to 44
  T-cycles. From DIV = 4 a \<^verbatim>\<open>step(12)\<close> (the cost of \<^verbatim>\<open>LD BC,nn\<close>) crosses the falling edge
  of bit 3 at DIV = 16, finds the bit clear before and after, and leaves TIMA at 0, where
  the same 12 T-cycles as \<^verbatim>\<open>step(4)\<close>, \<^verbatim>\<open>step(8)\<close> increment it. From DIV = 8 a
  \<^verbatim>\<open>step(16)\<close> crosses the same edge, finds the bit set before and after, and leaves TIMA
  at 0, where \<^verbatim>\<open>step(8)\<close>, \<^verbatim>\<open>step(8)\<close> increment it.
\<close>

theorem Timer_step_misses_falling_edge:
  "tac (tap3_timer 4) = 0x05 \<and> tima (tap3_timer 4) = 0
   \<and> falling_edges 3 (div_ctr (tap3_timer 4)) 12 = 1
   \<and> tima (snd (Timer_step (tap3_timer 4) 12)) = 0
   \<and> tima (Timer_steps (tap3_timer 4) [4, 8]) = 1
   \<and> falling_edges 3 (div_ctr (tap3_timer 8)) 16 = 1
   \<and> tima (snd (Timer_step (tap3_timer 8) 16)) = 0
   \<and> tima (Timer_steps (tap3_timer 8) [8, 8]) = 1"
proof -
  have "falling_edges 3 4 12 = 1"
    using falling_edges_closed [of 3 4 12] by simp
  moreover have "falling_edges 3 8 16 = 1"
    using falling_edges_closed [of 3 8 16] by simp
  ultimately show ?thesis
    by (simp add: tap3_timer_def Timer_init_def Timer_step_def BITS_def Let_def)
qed

section \<open>The window line counter\<close>

text \<open>
  \<open>same_regs p p'\<close>: the two PPU states differ at most in the window latch and the
  framebuffer, the only fields the pixel loop writes.
\<close>

definition same_regs :: "ppu_state \<Rightarrow> ppu_state \<Rightarrow> bool" where
  "same_regs p p' = (p' = p\<lparr>win_active := win_active p', pixels := pixels p'\<rparr>)"

lemma same_regs_refl [simp]: "same_regs p p"
  by (simp add: same_regs_def)

lemma same_regs_trans: "same_regs p q \<Longrightarrow> same_regs q r \<Longrightarrow> same_regs p r"
  unfolding same_regs_def
  by (metis (no_types, lifting) ppu_state.surjective ppu_state.update_convs(17,18))

lemma same_regs_fields:
  assumes "same_regs p p'"
  shows "win_line p' = win_line p" "lcdc p' = lcdc p" "ly p' = ly p" "wy p' = wy p" "wx p' = wx p"
proof -
  from assms have e: "p' = p\<lparr>win_active := win_active p', pixels := pixels p'\<rparr>"
    by (simp add: same_regs_def)
  show "win_line p' = win_line p" by (subst e) simp
  show "lcdc p' = lcdc p" by (subst e) simp
  show "ly p' = ly p" by (subst e) simp
  show "wy p' = wy p" by (subst e) simp
  show "wx p' = wx p" by (subst e) simp
qed

lemma render_px_same:
  "render_px tmap tdata signed base px (p, bg) = Inr (p', bg') \<Longrightarrow> same_regs p p'"
  by (auto simp add: render_px_def same_regs_def Let_def split_def split: sum.splits if_splits)

lemma for_each_render_px_same:
  "for_each (render_px tmap tdata signed base) pxs (p, bg) = Inr (p', bg') \<Longrightarrow> same_regs p p'"
proof (induction pxs arbitrary: p bg)
  case Nil
  then show ?case by simp
next
  case (Cons px pxs)
  from Cons.prems obtain p1 bg1 where
    1: "render_px tmap tdata signed base px (p, bg) = Inr (p1, bg1)" and
    2: "for_each (render_px tmap tdata signed base) pxs (p1, bg1) = Inr (p', bg')"
    by (auto split: sum.splits)
  from render_px_same [OF 1] Cons.IH [OF 2] show ?case by (rule same_regs_trans)
qed

lemma render_bg_win_line:
  assumes "render_bg base (p, bg) = Inr (p', bg')"
  shows "win_line p' = win_line p + (if win_y_ok p then 1 else 0)" and "lcdc p' = lcdc p"
proof -
  let ?tmap = "if lcdc p AND 8 \<noteq> 0 then 0x1C00 else 0x1800"
  let ?tdata = "if lcdc p AND 0x10 \<noteq> 0 then 0x0000 else (0x0800::int)"
  from assms obtain p1 bg1 where
    1: "for_each (render_px ?tmap ?tdata (lcdc p AND 0x10 = 0) base) [0..159] (p, bg) = Inr (p1, bg1)"
    and 2: "p' = (if win_y_ok p then p1\<lparr>win_line := win_line p1 + 1\<rparr> else p1)"
    by (auto simp add: render_bg_def Let_def split: sum.splits)
  from for_each_render_px_same [OF 1] have "same_regs p p1" .
  from same_regs_fields [OF this] 2
  show "win_line p' = win_line p + (if win_y_ok p then 1 else 0)" and "lcdc p' = lcdc p"
    by simp_all
qed

lemma sprite_px_regs:
  "win_line (sprite_px base bg pal fx prio ox lo hi px p) = win_line p"
  by (simp add: sprite_px_def Let_def split_def)

lemma fold_sprite_px_regs:
  "win_line (fold (sprite_px base bg pal fx prio ox lo hi) pxs p) = win_line p"
  by (induction pxs arbitrary: p) (simp_all add: sprite_px_regs)

lemma render_sprite_regs: "win_line (render_sprite base bg sh spr p) = win_line p"
  by (simp add: render_sprite_def Let_def split_def fold_sprite_px_regs)

lemma fold_render_sprite_regs:
  "win_line (fold (render_sprite base bg sh) sprs p) = win_line p"
  by (induction sprs arbitrary: p) (simp_all add: render_sprite_regs)

lemma render_sprites_regs: "win_line (render_sprites base bg p) = win_line p"
  by (simp add: render_sprites_def Let_def fold_render_sprite_regs)

lemma PPU_render_win_line:
  assumes "PPU_render p = Inr p'"
  shows "win_line p' = win_line p
           + (if ly p < 144 \<and> lcdc p AND 1 \<noteq> 0 \<and> lcdc p AND 0x20 \<noteq> 0 \<and> wy p \<le> ly p then 1 else 0)"
proof (cases "ly p \<ge> 144")
  case True
  then show ?thesis using assms by (simp add: PPU_render_def)
next
  case False
  show ?thesis
  proof (cases "lcdc p AND 1 \<noteq> 0")
    case True
    from assms False True obtain p1 bg1 where
      1: "render_bg (ly p * 160 * 3) (p, \<lambda>_. 0) = Inr (p1, bg1)" and
      2: "p' = (if lcdc p1 AND 2 \<noteq> 0 then render_sprites (ly p * 160 * 3) bg1 p1 else p1)"
      by (auto simp add: PPU_render_def Let_def split: sum.splits)
    from render_bg_win_line [OF 1] 2 have "win_line p' = win_line p + (if win_y_ok p then 1 else 0)"
      by (simp add: render_sprites_regs)
    then show ?thesis using False True by (simp add: win_y_ok_def)
  next
    case F2: False
    with assms False have "p' = (if lcdc p AND 2 \<noteq> 0 then render_sprites (ly p * 160 * 3) (\<lambda>_. 0) p else p)"
      by (auto simp add: PPU_render_def Let_def)
    then show ?thesis using False F2 by (simp add: render_sprites_regs)
  qed
qed

text \<open>No exception: the window map read stays inside VRAM.\<close>

lemma tile_fetch_ok:
  assumes "0 \<le> px" "px \<le> 159" "0 \<le> win_line p" "win_line p \<le> 255" "0 \<le> wx p"
  shows "\<exists>ti row col. tile_fetch p tmap px = Inr (ti, row, col)"
proof (cases "use_win p px \<and> win_active p")
  case True
  then have tx: "0 \<le> px - (wx p - 7)" "px - (wx p - 7) \<le> 166"
    using assms by (simp_all add: use_win_def)
  have "0 \<le> win_line p div 8" "win_line p div 8 \<le> 31" "0 \<le> (px - (wx p - 7)) div 8"
    "(px - (wx p - 7)) div 8 \<le> 20"
    using assms tx by presburger+
  then have "bytearray_get 0x2000 (vram p) ((if lcdc p AND 0x40 \<noteq> 0 then 0x1C00 else 0x1800)
          + drop_bit 3 (win_line p) * 32 + drop_bit 3 (px - (wx p - 7)))
      = Inr (vram p ((if lcdc p AND 0x40 \<noteq> 0 then 0x1C00 else 0x1800)
          + drop_bit 3 (win_line p) * 32 + drop_bit 3 (px - (wx p - 7))))"
    by (simp add: bytearray_get_def drop_bit_eq_div)
  then show ?thesis using True by (simp add: tile_fetch_def Let_def)
next
  case False
  then show ?thesis by (auto simp add: tile_fetch_def Let_def)
qed

lemma render_px_ok:
  assumes "0 \<le> px" "px \<le> 159" "0 \<le> win_line p" "win_line p \<le> 255" "0 \<le> wx p"
  shows "\<exists>p' bg'. render_px tmap tdata signed base px (p, bg) = Inr (p', bg')"
proof -
  define p1 where "p1 = (if use_win p px then p\<lparr>win_active := True\<rparr> else p)"
  have "win_line p1 = win_line p" "wx p1 = wx p" by (simp_all add: p1_def)
  with assms obtain ti row col where tf: "tile_fetch p1 tmap px = Inr (ti, row, col)"
    using tile_fetch_ok [of px p1 tmap] by auto
  have "render_px tmap tdata signed base px (p, bg) =
      (let addr = tile_addr signed tdata ti row in
              if addr < 0 \<or> addr + 1 \<ge> 0x2000 then Inr (p1, bg)
              else
                (let lo = vram p1 addr; hi = vram p1 (addr + 1);
                     bit = nat (7 - col);
                     c = push_bit 1 (drop_bit bit hi AND 1) OR (drop_bit bit lo AND 1);
                     bg_idx = bg(px := c);
                     (r, g, b) = PPU_shade (bgp p1) c
                 in Inr (p1\<lparr>pixels := (pixels p1)(base + px * 3 := r,
                                                 base + px * 3 + 1 := g,
                                                 base + px * 3 + 2 := b)\<rparr>, bg_idx)))"
    unfolding render_px_def using tf by (simp add: p1_def Let_def)
  then show ?thesis by (simp add: Let_def split_def)
qed

lemma for_each_render_px_ok:
  assumes "\<forall>px\<in>set pxs. 0 \<le> px \<and> px \<le> 159" "0 \<le> win_line p" "win_line p \<le> 255" "0 \<le> wx p"
  shows "\<exists>p' bg'. for_each (render_px tmap tdata signed base) pxs (p, bg) = Inr (p', bg')"
  using assms
proof (induction pxs arbitrary: p bg)
  case Nil
  then show ?case by simp
next
  case (Cons px pxs)
  from render_px_ok [of px p tmap tdata signed base bg] Cons.prems
  obtain p1 bg1 where 1: "render_px tmap tdata signed base px (p, bg) = Inr (p1, bg1)" by auto
  from same_regs_fields [OF render_px_same [OF 1]] Cons.prems
  have "\<exists>p' bg'. for_each (render_px tmap tdata signed base) pxs (p1, bg1) = Inr (p', bg')"
    by (intro Cons.IH) simp_all
  then show ?case using 1 by simp
qed

lemma PPU_render_ok:
  assumes "0 \<le> win_line p" "win_line p \<le> 255" "0 \<le> wx p"
  shows "\<exists>p'. PPU_render p = Inr p'"
proof -
  have "\<exists>p' bg'. for_each (render_px tmap tdata signed base) [0..159] (p, bg) = Inr (p', bg')"
    for tmap tdata signed base bg
    using assms by (intro for_each_render_px_ok) simp_all
  then have "\<exists>p' bg'. render_bg base (p, bg) = Inr (p', bg')" for base bg
    by (simp add: render_bg_def Let_def split: sum.splits prod.splits) (metis old.sum.exhaust sum.distinct(1) surj_pair)
  then show ?thesis
    by (simp add: PPU_render_def Let_def split: sum.splits prod.splits) (metis old.sum.exhaust sum.distinct(1) surj_pair)
qed

text \<open>
  A PPU fresh from reset (LY = 0, WY = 0, window line 0) with background and window
  enabled (LCDC = \<^verbatim>\<open>0xB1\<close>) and the given WX.
\<close>

definition window_ppu :: "int \<Rightarrow> ppu_state" where
  "window_ppu x = PPU_init\<lparr>lcdc := 0xB1, wx := x\<rparr>"

text \<open>
  Claim C6 says that \<^verbatim>\<open>win_line\<close> is incremented at the end of a scanline if and only if a
  window pixel was emitted on that line, and that a line with no window pixel leaves it
  unchanged. \<^verbatim>\<open>_render\<close> tests WX for each pixel (\<^verbatim>\<open>use_win\<close>) and latches \<^verbatim>\<open>_win_active\<close>
  when a pixel takes the window path, but increments \<^verbatim>\<open>win_line\<close> under \<^verbatim>\<open>win_y_ok\<close> alone,
  which looks at neither. With LCDC = \<^verbatim>\<open>0xB1\<close>, WY = 0 and WX = 200 no pixel of line 0 is
  a window pixel (WX-7 is beyond pixel 159), and \<^verbatim>\<open>win_line\<close> still goes from 0 to 1.
\<close>

theorem win_line_advances_without_window_pixel:
  "lcdc (window_ppu 200) AND 0x20 \<noteq> 0 \<and> wy (window_ppu 200) \<le> ly (window_ppu 200)
   \<and> \<not> list_ex (use_win (window_ppu 200)) [0..159]
   \<and> win_line (window_ppu 200) = 0
   \<and> map_sum id win_line (PPU_render (window_ppu 200)) = Inr 1"
proof -
  let ?p = "window_ppu 200"
  have f: "win_line ?p = 0" "wx ?p = 200" "ly ?p = 0" "wy ?p = 0" "lcdc ?p = 0xB1"
    by (simp_all add: window_ppu_def PPU_init_def)
  from PPU_render_ok [of ?p] obtain q where q: "PPU_render ?p = Inr q" by (auto simp add: f)
  from PPU_render_win_line [OF q] have "win_line q = 1" by (simp add: f)
  moreover have "\<not> list_ex (use_win ?p) [0..159]"
    by (auto simp add: list_ex_iff use_win_def f)
  ultimately show ?thesis using q by (simp add: f)
qed

section \<open>How far a frame runs\<close>

text \<open>
  \<^verbatim>\<open>run_frame\<close> goes round its loop while \<^verbatim>\<open>total_cyc < target\<close>. \<open>iterate_frames n\<close> is
  \<open>n\<close> rounds of that loop, without the test.
\<close>

fun iterate_frames :: "nat \<Rightarrow> cpu_state \<times> int \<Rightarrow> error + cpu_state \<times> int" where
  "iterate_frames 0 st = Inr st"
| "iterate_frames (Suc n) st =
     (case frame_iter st of Inl e \<Rightarrow> Inl e | Inr st' \<Rightarrow> iterate_frames n st')"

lemma iterate_frames_total:
  "iterate_frames n st = Inr st' \<Longrightarrow> snd st + 4 * int n \<le> snd st'"
proof (induction n arbitrary: st)
  case 0
  then show ?case by simp
next
  case (Suc n)
  from Suc.prems obtain s1 where 1: "frame_iter st = Inr s1" and 2: "iterate_frames n s1 = Inr st'"
    by (auto split: sum.splits)
  from 1 have "frame_iter (fst st, snd st) = Inr (fst s1, snd s1)" by simp
  from frame_iter_advance [OF this] Suc.IH [OF 2] show ?case by simp
qed

text \<open>Rounds that end at or below the target are rounds of the loop.\<close>

lemma run_loop_skip:
  "iterate_frames n st = Inr st' \<Longrightarrow> snd st' \<le> target \<Longrightarrow> run_loop target st = run_loop target st'"
proof (induction n arbitrary: st)
  case 0
  then show ?case by simp
next
  case (Suc n)
  from Suc.prems obtain s1 where 1: "frame_iter st = Inr s1" and 2: "iterate_frames n s1 = Inr st'"
    by (auto split: sum.splits)
  from 1 have "frame_iter (fst st, snd st) = Inr (fst s1, snd s1)" by simp
  from frame_iter_advance [OF this] iterate_frames_total [OF 2] Suc.prems(2)
  have "snd st < target" by simp
  then have "run_loop target st = run_loop target s1" using 1 by simp
  also have "\<dots> = run_loop target st'" using Suc.IH [OF 2 Suc.prems(2)] .
  finally show ?case .
qed

lemma run_loop_last:
  "snd st < target \<Longrightarrow> frame_iter st = Inr st' \<Longrightarrow> target \<le> snd st' \<Longrightarrow> run_loop target st = Inr st'"
  by simp

text \<open>One round of the loop with the CPU halted, nothing pending, the LCD off and no timer overflow pending.\<close>

lemma halted_iter:
  assumes "halted c" and "ime_pending c = 0" and "IE (mmu c) AND IF (mmu c) AND 0x1F = 0"
    and "lcdc (ppu (mmu c)) AND 0x80 = 0" and "\<not> ovf (timer (mmu c))"
  shows "frame_iter (c, tot) =
           Inr (c\<lparr>mmu := (mmu c)\<lparr>timer := snd (Timer_step (timer (mmu c)) 4)\<rparr>, cycles := cycles c + 4\<rparr>,
                tot + 4)"
proof -
  have st: "CPU_step c = c\<lparr>cycles := cycles c + 4\<rparr>"
    using assms by (simp add: CPU_step_def CPU_handle_interrupts_def Let_def)
  have nf: "\<not> fst (Timer_step (timer (mmu c)) 4)"
    using assms(5) by (simp add: Timer_step_def Let_def split_def)
  show ?thesis
    using assms(4) nf by (simp add: frame_iter_def st PPU_step_def Let_def split_def)
qed

text \<open>
  A halted CPU with nothing pending and the LCD off costs 4 T-cycles a round and only
  moves the timer: after \<open>n\<close> rounds DIV has advanced by \<open>4n\<close> and TIMA by the falling edges
  of the tapped bit, as long as TIMA does not overflow.
\<close>

lemma BITS_ge: "(4::int) \<le> 2 ^ BITS k"
  by (simp add: BITS_def)

lemma Timer_step_state:
  assumes en: "tac t AND 4 \<noteq> 0" and novf: "\<not> ovf t" and t0: "0 \<le> tima t"
    and c: "0 < c" "c \<le> 2 ^ BITS (tac t AND 3)"
    and bound: "tima t + int (falling_edges (BITS (tac t AND 3)) (div_ctr t) (nat c)) \<le> 0xFF"
  shows "snd (Timer_step t c) =
           t\<lparr>div_ctr := (div_ctr t + c) mod 65536,
             tima := tima t + int (falling_edges (BITS (tac t AND 3)) (div_ctr t) (nat c))\<rparr>"
proof -
  let ?b = "BITS (tac t AND 3)"
  have fe: "int (falling_edges ?b (div_ctr t) (nat c))
         = (if div_bit ?b (div_ctr t) \<and> \<not> div_bit ?b ((div_ctr t + c) AND 0xFFFF) then 1 else 0)"
    using falling_edges_step [OF BITS_less c] .
  show ?thesis
  proof (cases "div_bit ?b (div_ctr t) \<and> \<not> div_bit ?b ((div_ctr t + c) AND 0xFFFF)")
    case True
    with fe have one: "int (falling_edges ?b (div_ctr t) (nat c)) = 1" by simp
    with bound t0 have m: "(tima t + 1) AND 0xFF = tima t + 1" by (simp add: and_FF)
    have nz: "tima t + 1 \<noteq> 0" using t0 by simp
    show ?thesis using True en novf m nz
      by (simp add: Timer_step_def Let_def split_def one and_FFFF flip: div_bit_def)
  next
    case False
    with fe have zero: "int (falling_edges ?b (div_ctr t) (nat c)) = 0" by simp
    show ?thesis using False en novf
      by (auto simp add: Timer_step_def Let_def split_def zero and_FFFF simp flip: div_bit_def)
  qed
qed

lemma halted_phase:
  assumes "halted c" and "ime_pending c = 0" and "IE (mmu c) AND IF (mmu c) AND 0x1F = 0"
    and "lcdc (ppu (mmu c)) AND 0x80 = 0"
    and "tac (timer (mmu c)) AND 4 \<noteq> 0" and "\<not> ovf (timer (mmu c))" and "0 \<le> tima (timer (mmu c))"
    and "tima (timer (mmu c))
         + int (falling_edges (BITS (tac (timer (mmu c)) AND 3)) (div_ctr (timer (mmu c))) (nat (4 * int n)))
         \<le> 0xFF"
  shows "iterate_frames n (c, tot) =
     Inr (c\<lparr>mmu := (mmu c)\<lparr>timer := (timer (mmu c))
               \<lparr>div_ctr := (if n = 0 then div_ctr (timer (mmu c))
                             else (div_ctr (timer (mmu c)) + 4 * int n) mod 65536),
                tima := tima (timer (mmu c))
                  + int (falling_edges (BITS (tac (timer (mmu c)) AND 3)) (div_ctr (timer (mmu c)))
                                       (nat (4 * int n)))\<rparr>\<rparr>,
            cycles := cycles c + 4 * int n\<rparr>, tot + 4 * int n)"
  using assms
proof (induction n arbitrary: c tot)
  case 0
  then show ?case by simp
next
  case (Suc n)
  let ?t = "timer (mmu c)"
  let ?b = "BITS (tac ?t AND 3)"
  let ?d = "div_ctr ?t"
  have split: "int (falling_edges ?b ?d (nat (4 + 4 * int n)))
      = int (falling_edges ?b ?d (nat 4)) + int (falling_edges ?b ((?d + 4) AND 0xFFFF) (nat (4 * int n)))"
    using falling_edges_split [OF BITS_less, of 4 "4 * int n" "tac ?t AND 3" ?d] by simp
  have eq4: "4 * int (Suc n) = 4 + 4 * int n" by simp
  have b4: "tima ?t + int (falling_edges ?b ?d (nat 4)) \<le> 0xFF"
    using Suc.prems(8) split unfolding eq4 by linarith
  have ts: "snd (Timer_step ?t 4) =
      ?t\<lparr>div_ctr := (?d + 4) mod 65536, tima := tima ?t + int (falling_edges ?b ?d (nat 4))\<rparr>"
    using Timer_step_state [OF Suc.prems(5,6,7) _ BITS_ge b4] by simp
  define c1 where "c1 = c\<lparr>mmu := (mmu c)\<lparr>timer := snd (Timer_step ?t 4)\<rparr>, cycles := cycles c + 4\<rparr>"
  have it: "frame_iter (c, tot) = Inr (c1, tot + 4)"
    unfolding c1_def using Suc.prems(1,2,3,4,6) by (rule halted_iter)
  have t1: "timer (mmu c1) = ?t\<lparr>div_ctr := (?d + 4) mod 65536,
                                  tima := tima ?t + int (falling_edges ?b ?d (nat 4))\<rparr>"
    by (simp add: c1_def ts)
  have IH: "iterate_frames n (c1, tot + 4) =
     Inr (c1\<lparr>mmu := (mmu c1)\<lparr>timer := (timer (mmu c1))
               \<lparr>div_ctr := (if n = 0 then div_ctr (timer (mmu c1))
                             else (div_ctr (timer (mmu c1)) + 4 * int n) mod 65536),
                tima := tima (timer (mmu c1))
                  + int (falling_edges (BITS (tac (timer (mmu c1)) AND 3)) (div_ctr (timer (mmu c1)))
                                       (nat (4 * int n)))\<rparr>\<rparr>,
            cycles := cycles c1 + 4 * int n\<rparr>, tot + 4 + 4 * int n)"
  proof (rule Suc.IH)
    show "halted c1" "ime_pending c1 = 0" using Suc.prems(1,2) by (simp_all add: c1_def)
    show "IE (mmu c1) AND IF (mmu c1) AND 0x1F = 0" using Suc.prems(3) by (simp add: c1_def)
    show "lcdc (ppu (mmu c1)) AND 0x80 = 0" using Suc.prems(4) by (simp add: c1_def)
    show "tac (timer (mmu c1)) AND 4 \<noteq> 0" "\<not> ovf (timer (mmu c1))"
      using Suc.prems(5,6) by (simp_all add: t1)
    show "0 \<le> tima (timer (mmu c1))" using Suc.prems(7) by (simp add: t1)
    show "tima (timer (mmu c1))
         + int (falling_edges (BITS (tac (timer (mmu c1)) AND 3)) (div_ctr (timer (mmu c1))) (nat (4 * int n)))
         \<le> 0xFF"
      using Suc.prems(8) split unfolding eq4 by (simp add: t1 and_FFFF)
  qed
  have "iterate_frames (Suc n) (c, tot) = iterate_frames n (c1, tot + 4)" using it by simp
  also note IH
  finally show ?case
    using split unfolding eq4
    by (simp add: t1 c1_def ts and_FFFF mod_simps add.assoc)
qed

subsection \<open>A frame that ends 40 T-cycles late\<close>

text \<open>
  A ROM of 285 bytes. At \<^verbatim>\<open>0x0050\<close> (the timer vector) it holds \<^verbatim>\<open>CALL 0x0200\<close>; at the entry
  point \<^verbatim>\<open>0x0100\<close> it holds

  \<^verbatim>\<open>LDH (40),A\<close> (LCD off), \<^verbatim>\<open>LD A,04\<close>, \<^verbatim>\<open>LDH (FF),A\<close> (IE = timer), \<^verbatim>\<open>INC A\<close>,
  \<^verbatim>\<open>LDH (07),A\<close> (TAC = 5), \<^verbatim>\<open>LD A,E0\<close>, \<^verbatim>\<open>LDH (05),A\<close> (TIMA), \<^verbatim>\<open>HALT\<close>,
  \<^verbatim>\<open>LDH (04),A\<close> (DIV reset), \<^verbatim>\<open>LD A,04\<close>, \<^verbatim>\<open>LDH (07),A\<close> (TAC = 4), \<^verbatim>\<open>LD A,BC\<close>,
  \<^verbatim>\<open>LDH (05),A\<close> (TIMA), \<^verbatim>\<open>XOR A\<close>, \<^verbatim>\<open>LDH (0F),A\<close> (IF = 0), \<^verbatim>\<open>EI\<close>, \<^verbatim>\<open>HALT\<close>.

  The first \<^verbatim>\<open>HALT\<close> waits for a timer overflow with IME clear, which brings the total
  to a value that is 0 modulo 4 but puts the second overflow, with IME set, at T-cycle
  70 220: the step that starts there dispatches the interrupt (20) and executes the
  \<^verbatim>\<open>CALL\<close> at the vector (24).
\<close>

definition overshoot_rom :: "int list" where
  "overshoot_rom = replicate 0x50 0 @ [0xCD, 0x00, 0x02] @ replicate 0xAD 0 @
     [0xE0, 0x40, 0x3E, 0x04, 0xE0, 0xFF, 0x3C, 0xE0, 0x07, 0x3E, 0xE0, 0xE0, 0x05, 0x76,
      0xE0, 0x04, 0x3E, 0x04, 0xE0, 0x07, 0x3E, 0xBC, 0xE0, 0x05, 0xAF, 0xE0, 0x0F, 0xFB, 0x76]"

lemma overshoot_rom_length: "length overshoot_rom = 285"
  by (simp add: overshoot_rom_def)

lemma overshoot_rom_at:
  "overshoot_rom ! 80 = 205"
  "overshoot_rom ! 81 = 0"
  "overshoot_rom ! 82 = 2"
  "overshoot_rom ! 256 = 224"
  "overshoot_rom ! 257 = 64"
  "overshoot_rom ! 258 = 62"
  "overshoot_rom ! 259 = 4"
  "overshoot_rom ! 260 = 224"
  "overshoot_rom ! 261 = 255"
  "overshoot_rom ! 262 = 60"
  "overshoot_rom ! 263 = 224"
  "overshoot_rom ! 264 = 7"
  "overshoot_rom ! 265 = 62"
  "overshoot_rom ! 266 = 224"
  "overshoot_rom ! 267 = 224"
  "overshoot_rom ! 268 = 5"
  "overshoot_rom ! 269 = 118"
  "overshoot_rom ! 270 = 224"
  "overshoot_rom ! 271 = 4"
  "overshoot_rom ! 272 = 62"
  "overshoot_rom ! 273 = 4"
  "overshoot_rom ! 274 = 224"
  "overshoot_rom ! 275 = 7"
  "overshoot_rom ! 276 = 62"
  "overshoot_rom ! 277 = 188"
  "overshoot_rom ! 278 = 224"
  "overshoot_rom ! 279 = 5"
  "overshoot_rom ! 280 = 175"
  "overshoot_rom ! 281 = 224"
  "overshoot_rom ! 282 = 15"
  "overshoot_rom ! 283 = 251"
  "overshoot_rom ! 284 = 118"
  by (simp_all add: overshoot_rom_def nth_append)

lemma iterate_frames_numeral:
  "iterate_frames (numeral k) st =
     (case frame_iter st of Inl e \<Rightarrow> Inl e | Inr st' \<Rightarrow> iterate_frames (pred_numeral k) st')"
  by (simp add: numeral_eq_Suc)

lemmas machine_defs = frame_iter_def CPU_step_def CPU_handle_interrupts_def CPU_fetch_exec_def
  CPU_exec_def CPU_exec_40_7F_def CPU_exec_80_BF_def CPU_exec_C0_FF_def cpu_defs CPU_r8_def
  CPU_zf_def CPU_nf_def CPU_hf_def CPU_cf_def CPU_af_def CPU_bc_def CPU_de_def CPU_hl_def
  MMU_rb_def MMU_wb_def MMU_ww_def MMU_rw_def Cartridge_read_def Cartridge_write_def
  PPU_write_def PPU_read_def PPU_step_def Timer_step_def Timer_write_def Timer_read_def BITS_def
  Let_def split_def overshoot_rom_length overshoot_rom_at

text \<open>After 8 rounds: the first \<^verbatim>\<open>HALT\<close> has been executed, 72 T-cycles in.\<close>

definition stage_a :: cpu_state where
  "stage_a = (power_on overshoot_rom)
     \<lparr>mmu := (mmu (power_on overshoot_rom))
        \<lparr>ppu := PPU_init\<lparr>lcdc := 0x01, mode := 0, frame_ready := True\<rparr>,
         timer := Timer_init\<lparr>div_ctr := 44052, tima := 0xE0, tac := 0x05\<rparr>,
         IE := 0x04\<rparr>,
      pc := 0x10E, reg_a := 0xE0, reg_f := 0x10, halted := True, cycles := 72\<rparr>"

lemma stage_a: "iterate_frames 8 (power_on overshoot_rom, 0) = Inr (stage_a, 72)"
  by (simp add: iterate_frames_numeral stage_a_def power_on_def CPU_init_def MMU_init_def
        Cartridge_init_def PPU_init_def Timer_init_def machine_defs)

lemma phase_1:
  "iterate_frames 126 (stage_a, 72) =
     Inr (stage_a\<lparr>mmu := (mmu stage_a)\<lparr>timer := (timer (mmu stage_a))\<lparr>div_ctr := 44556, tima := 0xFF\<rparr>\<rparr>,
                  cycles := 576\<rparr>, 576)"
proof -
  have f: "halted stage_a" "ime_pending stage_a = 0" "IE (mmu stage_a) AND IF (mmu stage_a) AND 0x1F = 0"
    "lcdc (ppu (mmu stage_a)) AND 0x80 = 0" "tac (timer (mmu stage_a)) = 5"
    "\<not> ovf (timer (mmu stage_a))" "tima (timer (mmu stage_a)) = 0xE0"
    "div_ctr (timer (mmu stage_a)) = 44052" "cycles stage_a = 72"
    by (simp_all add: stage_a_def power_on_def CPU_init_def MMU_init_def PPU_init_def Timer_init_def)
  have e: "falling_edges 3 44052 504 = 31"
    using falling_edges_closed [of 3 44052 504] by simp
  note b = BITS_def
  have "iterate_frames 126 (stage_a, 72) =
     Inr (stage_a\<lparr>mmu := (mmu stage_a)\<lparr>timer := (timer (mmu stage_a))
               \<lparr>div_ctr := (if (126::nat) = 0 then div_ctr (timer (mmu stage_a))
                             else (div_ctr (timer (mmu stage_a)) + 4 * int 126) mod 65536),
                tima := tima (timer (mmu stage_a))
                  + int (falling_edges (BITS (tac (timer (mmu stage_a)) AND 3)) (div_ctr (timer (mmu stage_a)))
                                       (nat (4 * int 126)))\<rparr>\<rparr>,
            cycles := cycles stage_a + 4 * int 126\<rparr>, 72 + 4 * int 126)"
    by (rule halted_phase) (simp_all add: f b e)
  then show ?thesis by (simp add: f b e)
qed

text \<open>After 12 more rounds: the second \<^verbatim>\<open>HALT\<close> has been executed and IME is set, 664 T-cycles in.\<close>

definition stage_b :: cpu_state where
  "stage_b = (power_on overshoot_rom)
     \<lparr>mmu := (mmu (power_on overshoot_rom))
        \<lparr>ppu := PPU_init\<lparr>lcdc := 0x01, mode := 0, frame_ready := True\<rparr>,
         timer := Timer_init\<lparr>div_ctr := 80, tima := 0xBC, tac := 0x04\<rparr>,
         IE := 0x04, IF := 0x00\<rparr>,
      pc := 0x11D, reg_a := 0x00, reg_f := 0x80, halted := True, ime := True, cycles := 664\<rparr>"

lemma stage_b:
  "iterate_frames 12
     (stage_a\<lparr>mmu := (mmu stage_a)\<lparr>timer := (timer (mmu stage_a))\<lparr>div_ctr := 44556, tima := 0xFF\<rparr>\<rparr>,
              cycles := 576\<rparr>, 576)
   = Inr (stage_b, 664)"
  by (simp add: iterate_frames_numeral stage_a_def stage_b_def power_on_def CPU_init_def MMU_init_def
        Cartridge_init_def PPU_init_def Timer_init_def machine_defs)

lemma phase_3:
  "iterate_frames 17387 (stage_b, 664) =
     Inr (stage_b\<lparr>mmu := (mmu stage_b)\<lparr>timer := (timer (mmu stage_b))\<lparr>div_ctr := 4092, tima := 0xFF\<rparr>\<rparr>,
                  cycles := 70212\<rparr>, 70212)"
proof -
  have f: "halted stage_b" "ime_pending stage_b = 0" "IE (mmu stage_b) AND IF (mmu stage_b) AND 0x1F = 0"
    "lcdc (ppu (mmu stage_b)) AND 0x80 = 0" "tac (timer (mmu stage_b)) = 4"
    "\<not> ovf (timer (mmu stage_b))" "tima (timer (mmu stage_b)) = 0xBC"
    "div_ctr (timer (mmu stage_b)) = 80" "cycles stage_b = 664"
    by (simp_all add: stage_b_def power_on_def CPU_init_def MMU_init_def PPU_init_def Timer_init_def)
  have e: "falling_edges 9 80 69548 = 67"
    using falling_edges_closed [of 9 80 69548] by simp
  have "iterate_frames 17387 (stage_b, 664) =
     Inr (stage_b\<lparr>mmu := (mmu stage_b)\<lparr>timer := (timer (mmu stage_b))
               \<lparr>div_ctr := (if (17387::nat) = 0 then div_ctr (timer (mmu stage_b))
                             else (div_ctr (timer (mmu stage_b)) + 4 * int 17387) mod 65536),
                tima := tima (timer (mmu stage_b))
                  + int (falling_edges (BITS (tac (timer (mmu stage_b)) AND 3)) (div_ctr (timer (mmu stage_b)))
                                       (nat (4 * int 17387)))\<rparr>\<rparr>,
            cycles := cycles stage_b + 4 * int 17387\<rparr>, 664 + 4 * int 17387)"
    by (rule halted_phase) (simp_all add: f BITS_def e)
  then show ?thesis by (simp add: f BITS_def e)
qed

text \<open>At 70 220 T-cycles TIMA has overflowed and IF bit 2 is set; the CPU is still halted.\<close>

definition stage_c :: cpu_state where
  "stage_c = stage_b
     \<lparr>mmu := (mmu stage_b)\<lparr>timer := (timer (mmu stage_b))\<lparr>div_ctr := 4100, tima := 0x00\<rparr>, IF := 0x04\<rparr>,
      cycles := 70220\<rparr>"

lemma stage_c:
  "iterate_frames 2
     (stage_b\<lparr>mmu := (mmu stage_b)\<lparr>timer := (timer (mmu stage_b))\<lparr>div_ctr := 4092, tima := 0xFF\<rparr>\<rparr>,
              cycles := 70212\<rparr>, 70212)
   = Inr (stage_c, 70220)"
  by (simp add: iterate_frames_numeral stage_b_def stage_c_def power_on_def CPU_init_def MMU_init_def
        Cartridge_init_def PPU_init_def Timer_init_def machine_defs)

text \<open>
  The next step dispatches the timer interrupt and executes the \<^verbatim>\<open>CALL\<close>: two return
  addresses on the stack, PC = \<^verbatim>\<open>0x0200\<close>, 44 T-cycles later.
\<close>

definition stage_d :: cpu_state where
  "stage_d = stage_c
     \<lparr>mmu := (mmu stage_c)
        \<lparr>timer := (timer (mmu stage_c))\<lparr>div_ctr := 4144\<rparr>,
         hram := (\<lambda>_. 0)(0x7C := 0x1D, 0x7D := 0x01, 0x7A := 0x53, 0x7B := 0x00),
         IF := 0x00\<rparr>,
      pc := 0x200, sp := 0xFFFA, halted := False, ime := False, cycles := 70264\<rparr>"

lemma stage_d: "frame_iter (stage_c, 70220) = Inr (stage_d, 70264)"
  by (simp add: stage_b_def stage_c_def stage_d_def power_on_def CPU_init_def MMU_init_def
        Cartridge_init_def PPU_init_def Timer_init_def machine_defs)

lemma overshoot_run:
  "run_loop 70224 (power_on overshoot_rom, 0) = Inr (stage_d, 70264)"
proof -
  have "run_loop 70224 (power_on overshoot_rom, 0) = run_loop 70224 (stage_a, 72)"
    by (rule run_loop_skip [OF stage_a]) simp
  also have "\<dots> = run_loop 70224
       (stage_a\<lparr>mmu := (mmu stage_a)\<lparr>timer := (timer (mmu stage_a))\<lparr>div_ctr := 44556, tima := 0xFF\<rparr>\<rparr>,
                cycles := 576\<rparr>, 576)"
    by (rule run_loop_skip [OF phase_1]) simp
  also have "\<dots> = run_loop 70224 (stage_b, 664)"
    by (rule run_loop_skip [OF stage_b]) simp
  also have "\<dots> = run_loop 70224
       (stage_b\<lparr>mmu := (mmu stage_b)\<lparr>timer := (timer (mmu stage_b))\<lparr>div_ctr := 4092, tima := 0xFF\<rparr>\<rparr>,
                cycles := 70212\<rparr>, 70212)"
    by (rule run_loop_skip [OF phase_3]) simp
  also have "\<dots> = run_loop 70224 (stage_c, 70220)"
    by (rule run_loop_skip [OF stage_c]) simp
  also have "\<dots> = Inr (stage_d, 70264)"
    by (rule run_loop_last [OF _ stage_d]) simp_all
  finally show ?thesis .
qed

lemma overshoot_frame:
  "GameBoy_run_frame (GameBoy_load GameBoy_init overshoot_rom)
     = Inr \<lparr>cpu = Some stage_d, total_cyc = 70264\<rparr>"
  using overshoot_run
  by (simp add: GameBoy_run_frame_def GameBoy_load_def GameBoy_init_def CYCLES_PER_FRAME_def
        del: run_loop.simps)

subsection \<open>The window of a frame\<close>

lemma run_loop_window:
  "run_loop target st = Inr st' \<Longrightarrow> snd st < target \<Longrightarrow> target \<le> snd st' \<and> snd st' < target + 44"
proof (induction target st rule: run_loop.induct)
  case (1 target st)
  from "1.prems" obtain s1 where it: "frame_iter st = Inr s1" and rest: "run_loop target s1 = Inr st'"
    by (auto split: sum.splits simp del: run_loop.simps simp add: run_loop.simps [of target st])
  from it have "frame_iter (fst st, snd st) = Inr (fst s1, snd s1)" by simp
  from frame_iter_advance [OF this] have adv: "snd st + 4 \<le> snd s1" "snd s1 \<le> snd st + 44" by simp_all
  show ?case
  proof (cases "snd s1 < target")
    case True
    from "1.IH" [OF "1.prems"(2) it rest True] show ?thesis .
  next
    case False
    then have "st' = s1" using rest by (simp add: run_loop.simps [of target s1] del: run_loop.simps)
    then show ?thesis using False adv "1.prems"(2) by simp
  qed
qed

text \<open>
  Claim C8, amended. For every call of \<^verbatim>\<open>run_frame\<close> on a loaded system that returns, the
  cumulative T-cycle count at return exceeds the count at entry by at least 70 224 and by
  strictly less than 70 224 + 44, where 44 is the most one \<^verbatim>\<open>CPU.step\<close> can cost: the 20
  T-cycles of an interrupt dispatch plus the 24 of the most expensive instruction, which
  the same step goes on to execute.
\<close>

theorem run_frame_cycle_window:
  assumes "cpu g = Some c" and "GameBoy_run_frame g = Inr g'"
  shows "total_cyc g + CYCLES_PER_FRAME \<le> total_cyc g'
       \<and> total_cyc g' < total_cyc g + CYCLES_PER_FRAME + 44"
proof -
  from assms obtain c' tot where r: "run_loop (total_cyc g + CYCLES_PER_FRAME) (c, total_cyc g) = Inr (c', tot)"
    and g': "g' = g\<lparr>cpu := Some c', total_cyc := tot\<rparr>"
    by (auto simp add: GameBoy_run_frame_def split: sum.splits simp del: run_loop.simps)
  from run_loop_window [OF r] show ?thesis by (simp add: g' CYCLES_PER_FRAME_def)
qed

text \<open>The first frame of \<open>overshoot_rom\<close>: from 0 to 70 264.\<close>

theorem run_frame_cycle_window_witness:
  "cpu (GameBoy_load GameBoy_init overshoot_rom) = Some (power_on overshoot_rom)
   \<and> GameBoy_run_frame (GameBoy_load GameBoy_init overshoot_rom)
       = Inr \<lparr>cpu = Some stage_d, total_cyc = 70264\<rparr>
   \<and> total_cyc (GameBoy_load GameBoy_init overshoot_rom) + CYCLES_PER_FRAME
       \<le> total_cyc \<lparr>cpu = Some stage_d, total_cyc = 70264\<rparr>
   \<and> total_cyc \<lparr>cpu = Some stage_d, total_cyc = 70264\<rparr>
       < total_cyc (GameBoy_load GameBoy_init overshoot_rom) + CYCLES_PER_FRAME + 44"
proof -
  have c: "cpu (GameBoy_load GameBoy_init overshoot_rom) = Some (power_on overshoot_rom)"
    by (simp add: GameBoy_load_def)
  from run_frame_cycle_window [OF c overshoot_frame] c overshoot_frame show ?thesis by blast
qed

text \<open>
  Claim C8 as stated (less than 70 224 plus the maximum instruction cost, 24) fails on
  that frame: it ends 40 T-cycles past the frame boundary.
\<close>

theorem run_frame_overshoot_counterexample:
  "map_sum id total_cyc (GameBoy_run_frame (GameBoy_load GameBoy_init overshoot_rom))
     = Inr (total_cyc (GameBoy_load GameBoy_init overshoot_rom) + CYCLES_PER_FRAME + 40)"
  unfolding overshoot_frame by (simp add: GameBoy_load_def CYCLES_PER_FRAME_def)

end
